theory Spec2Isabelle
  imports Main
begin

section \<open>Data model (types.ts)\<close>

text \<open>
  The embedding follows the multi-provider version of the generator component
  (\<^verbatim>\<open>ImageGenerator\<close>, with \<^verbatim>\<open>MODELS\<close>, \<^verbatim>\<open>googleKeyIndex\<close> and
  \<^verbatim>\<open>openaiKeyIndex\<close>) and of \<^verbatim>\<open>App\<close> (with \<^verbatim>\<open>handleRemoveKey(key, provider)\<close>).
  The earlier single-provider version has the same rotation loop, worker pool and range
  filter, with one key list and one cursor.
  JavaScript strings are \<^typ>\<open>string\<close>; array indices and counters are \<^typ>\<open>nat\<close>;
  \<^verbatim>\<open>null\<close>/\<^verbatim>\<open>undefined\<close> is \<^const>\<open>None\<close>.
\<close>

datatype Provider = Google | OpenAI

datatype GenerationStatus = Pending | Generating | Success | Error

record CsvRow =
  id_str :: string
  prompt :: string

text \<open>\<^verbatim>\<open>ImageResult\<close> has the two fields of a \<^verbatim>\<open>CsvRow\<close> and three more; the code
  builds it as \<^verbatim>\<open>{ ...p, imageUrl: null, status: 'pending' }\<close>.\<close>

record ImageResult = CsvRow +
  imageUrl :: "string option"
  status :: GenerationStatus
  error :: "string option"

datatype Model = openai_dalle3 | google_imagen_4 | google_gemini_flash_image | openai_dalle2

text \<open>\<^verbatim>\<open>MODELS[selectedModel].provider\<close>\<close>

fun MODELS_provider :: "Model \<Rightarrow> Provider" where
  "MODELS_provider openai_dalle3 = OpenAI"
| "MODELS_provider google_imagen_4 = Google"
| "MODELS_provider google_gemini_flash_image = Google"
| "MODELS_provider openai_dalle2 = OpenAI"

fun providerName :: "Provider \<Rightarrow> string" where
  "providerName Google = ''google''"
| "providerName OpenAI = ''openai''"

section \<open>JavaScript string helpers\<close>

text \<open>\<^verbatim>\<open>s.includes(sub)\<close>: \<open>sub\<close> occurs in \<open>s\<close> as a contiguous block.\<close>

fun includes_str :: "string \<Rightarrow> string \<Rightarrow> bool" where
  "includes_str [] sub = (sub = [])"
| "includes_str (c # cs) sub = (take (length sub) (c # cs) = sub \<or> includes_str cs sub)"

text \<open>
  A string is kept as its UTF-8 bytes. \<open>whiteSpaceCodes\<close> lists the encodings of the
  code points that \<^verbatim>\<open>String.prototype.trim\<close> and \<^verbatim>\<open>parseInt\<close> strip (WhiteSpace and
  LineTerminator of ECMAScript): U+0009 to U+000D, U+0020, U+00A0, U+1680, U+2000 to
  U+200A, U+2028, U+2029, U+202F, U+205F, U+3000 and U+FEFF.
\<close>

definition whiteSpaceCodes :: "string list" where
  "whiteSpaceCodes =
     [[CHR 0x09], [CHR 0x0A], [CHR 0x0B], [CHR 0x0C], [CHR 0x0D], [CHR 0x20],
      [CHR 0xC2, CHR 0xA0], [CHR 0xE1, CHR 0x9A, CHR 0x80],
      [CHR 0xE2, CHR 0x80, CHR 0x80], [CHR 0xE2, CHR 0x80, CHR 0x81],
      [CHR 0xE2, CHR 0x80, CHR 0x82], [CHR 0xE2, CHR 0x80, CHR 0x83],
      [CHR 0xE2, CHR 0x80, CHR 0x84], [CHR 0xE2, CHR 0x80, CHR 0x85],
      [CHR 0xE2, CHR 0x80, CHR 0x86], [CHR 0xE2, CHR 0x80, CHR 0x87],
      [CHR 0xE2, CHR 0x80, CHR 0x88], [CHR 0xE2, CHR 0x80, CHR 0x89],
      [CHR 0xE2, CHR 0x80, CHR 0x8A], [CHR 0xE2, CHR 0x80, CHR 0xA8],
      [CHR 0xE2, CHR 0x80, CHR 0xA9], [CHR 0xE2, CHR 0x80, CHR 0xAF],
      [CHR 0xE2, CHR 0x81, CHR 0x9F], [CHR 0xE3, CHR 0x80, CHR 0x80],
      [CHR 0xEF, CHR 0xBB, CHR 0xBF]]"

definition startsWith :: "string \<Rightarrow> string \<Rightarrow> bool" where
  "startsWith s w = (w \<noteq> [] \<and> take (length w) s = w)"

text \<open>Strip from the front of \<open>s\<close> every leading occurrence of one of the codes.\<close>

function dropLeading :: "string list \<Rightarrow> string \<Rightarrow> string" where
  "dropLeading codes s =
     (case find (startsWith s) codes of
        None \<Rightarrow> s
      | Some w \<Rightarrow> dropLeading codes (drop (length w) s))"
  by pat_completeness auto
termination
proof (relation "measure (\<lambda>(codes, s). length s)")
  show "wf (measure (\<lambda>(codes, s). length s))" by simp
next
  fix codes :: "string list" and s w :: string
  assume "find (startsWith s) codes = Some w"
  then have "startsWith s w" by (auto simp: find_Some_iff)
  then have "w \<noteq> []" and "take (length w) s = w" by (auto simp: startsWith_def)
  then have "w \<noteq> []" "length w \<le> length s"
    by (auto dest: arg_cong[where f = length])
  then show "((codes, drop (length w) s), (codes, s)) \<in> measure (\<lambda>(codes, s). length s)"
    by (cases w) auto
qed

text \<open>\<^verbatim>\<open>s.trim()\<close>: white space is stripped at both ends.\<close>

definition trim :: "string \<Rightarrow> string" where
  "trim s = rev (dropLeading (map rev whiteSpaceCodes) (rev (dropLeading whiteSpaceCodes s)))"

section \<open>The provider API as seen by the component\<close>

text \<open>
  A value thrown inside the \<^verbatim>\<open>try\<close> block is represented by what the \<^verbatim>\<open>catch\<close>
  block reads from it:
  \<^item> \<open>inner_code\<close> is \<^verbatim>\<open>error?.error?.code\<close> (a number or a string),
  \<^item> \<open>inner_status\<close> is \<^verbatim>\<open>error?.error?.status\<close>,
  \<^item> \<open>inner_message\<close> is \<^verbatim>\<open>error?.error?.message\<close>,
  \<^item> \<open>message\<close> is \<^verbatim>\<open>error.message\<close>,
  \<^item> \<open>parsed_message\<close> is \<^verbatim>\<open>JSON.parse(error.message).error?.message\<close> when the
    parse succeeds and the field is there,
  \<^item> \<open>json\<close> is \<^verbatim>\<open>JSON.stringify(error)\<close>.
\<close>

datatype err_code = CodeNum int | CodeStr string

record js_error =
  inner_code :: "err_code option"
  inner_status :: "string option"
  inner_message :: "string option"
  message :: "string option"
  parsed_message :: "string option"
  json :: string

text \<open>\<^verbatim>\<open>new Error(msg)\<close> for the fixed messages of the component: only \<^verbatim>\<open>message\<close>
  is set, no own enumerable property is serialised, and the message is not JSON.\<close>

definition new_Error :: "string \<Rightarrow> js_error" where
  "new_Error msg = \<lparr> inner_code = None, inner_status = None, inner_message = None,
                     message = Some msg, parsed_message = None, json = ''{}'' \<rparr>"

text \<open>
  One call of the image endpoint either comes back, with the image field the code
  extracts (\<^verbatim>\<open>imageBytes\<close>, \<^verbatim>\<open>inlineData.data\<close> or \<^verbatim>\<open>b64_json\<close>, possibly
  \<^verbatim>\<open>undefined\<close>), or throws (an SDK error, a network error, or the JSON body of a
  response that is not \<^verbatim>\<open>ok\<close>, which the code throws itself).
\<close>

datatype api_outcome = Responded "string option" | Threw js_error

text \<open>One call of the anonymisation model: \<^verbatim>\<open>response.text\<close> or an exception.\<close>

datatype anon_outcome = AnonResponded "string option" | AnonThrew

text \<open>
  The outside world: the answer to the \<open>n\<close>-th image request (counting from 0), made
  with the key at a given index for a given prompt, and the answer to the \<open>n\<close>-th
  anonymisation request. Both are arbitrary functions, so every sequence of answers is
  covered. Every request is answered: a request that never returns is outside the model.
\<close>

type_synonym executor = "nat \<Rightarrow> nat \<Rightarrow> string \<Rightarrow> api_outcome"
type_synonym anonymizer = "nat \<Rightarrow> nat \<Rightarrow> string \<Rightarrow> anon_outcome"

section \<open>Component state\<close>

text \<open>What a render of the component captures in the \<^verbatim>\<open>generateSingleImage\<close>
  closure (its \<^verbatim>\<open>useCallback\<close> dependencies); fixed during one call.\<close>

record Config =
  selectedModel :: Model
  apiKeys :: "Provider \<Rightarrow> string list"
  isManualKeySelection :: bool
  activeKeyIndices :: "Provider \<Rightarrow> nat"
  anonymizePrompts :: bool

text \<open>
  What a call can change: the two refs (the rotation cursors), the React state
  \<^verbatim>\<open>activeKeyIndices\<close> as \<^verbatim>\<open>setActiveKeyIndices\<close> leaves it for the next render, and
  the requests sent so far (key index and prompt of each image request, key index and
  prompt of each anonymisation request).
\<close>

record RunState =
  googleKeyIndex :: nat
  openaiKeyIndex :: nat
  nextActiveKeyIndices :: "Provider \<Rightarrow> nat"
  requests :: "(nat \<times> string) list"
  anonRequests :: "(nat \<times> string) list"

definition keyIndexRef_current :: "Provider \<Rightarrow> RunState \<Rightarrow> nat" where
  "keyIndexRef_current p st = (if p = Google then googleKeyIndex st else openaiKeyIndex st)"

definition keyIndexRef_assign :: "Provider \<Rightarrow> nat \<Rightarrow> RunState \<Rightarrow> RunState" where
  "keyIndexRef_assign p k st =
     (if p = Google then st\<lparr>googleKeyIndex := k\<rparr> else st\<lparr>openaiKeyIndex := k\<rparr>)"

section \<open>anonymizePrompt\<close>

text \<open>The second argument is the Gemini client, given by the index of its key;
  \<^const>\<open>None\<close> is \<^verbatim>\<open>undefined\<close>.\<close>

definition anonymizePrompt ::
  "anonymizer \<Rightarrow> RunState \<Rightarrow> string \<Rightarrow> nat option \<Rightarrow> string \<times> RunState" where
  "anonymizePrompt anon st p aiInstance =
     (case aiInstance of
        None \<Rightarrow> (p, st)
      | Some i \<Rightarrow>
          (let st' = st\<lparr>anonRequests := anonRequests st @ [(i, p)]\<rparr> in
           case anon (length (anonRequests st)) i p of
             AnonResponded (Some text) \<Rightarrow>
               (let anonymizedText = trim text in
                if anonymizedText \<noteq> [] then (anonymizedText, st') else (p, st'))
           | AnonResponded None \<Rightarrow> (p, st')
           | AnonThrew \<Rightarrow> (p, st')))"

section \<open>generateSingleImage\<close>

text \<open>\<^verbatim>\<open>handleError(error, provider)\<close>: the message shown for a failure.\<close>

definition truthy :: "string option \<Rightarrow> bool" where
  "truthy s = (case s of None \<Rightarrow> False | Some t \<Rightarrow> t \<noteq> [])"

definition orUnknown :: "string option \<Rightarrow> string" where
  "orUnknown m = (if truthy m then the m else ''An unknown error occurred'')"

definition handleError :: "js_error \<Rightarrow> Provider \<Rightarrow> string" where
  "handleError e provider =
     (case provider of
        Google \<Rightarrow>
          (if truthy (inner_message e) then the (inner_message e)
           else (case message e of
                   Some m \<Rightarrow> (if truthy (parsed_message e) then the (parsed_message e) else m)
                 | None \<Rightarrow> orUnknown (message e)))
      | OpenAI \<Rightarrow>
          (if truthy (inner_message e) then ''OpenAI Error: '' @ the (inner_message e)
           else orUnknown (message e)))"

text \<open>The classification in the \<^verbatim>\<open>catch\<close> block.\<close>

definition isRateLimitError :: "js_error \<Rightarrow> bool" where
  "isRateLimitError e =
     ((inner_code e = Some (CodeNum 429) \<or> inner_code e = Some (CodeStr ''rate_limit_exceeded''))
      \<or> inner_status e = Some ''RESOURCE_EXHAUSTED''
      \<or> includes_str (json e) ''quota exceeded''
      \<or> includes_str (json e) ''billed users'')"

definition manualKeyMessage :: string where
  "manualKeyMessage = ''The manually selected API key is rate-limited or invalid.''"

definition allKeysMessage :: string where
  "allKeysMessage = ''All API keys are rate-limited or invalid.''"

definition noImageMessage :: string where
  "noImageMessage = ''No image was returned from the API. This is often caused by safety filters. Try rewriting the prompt.''"

definition noKeysMessage :: "Provider \<Rightarrow> string" where
  "noKeysMessage p = ''No API keys provided for '' @ providerName p @ ''.''"

text \<open>The lines from \<^verbatim>\<open>let promptForApi\<close> to the end of the anonymisation block.\<close>

definition promptForApi :: "Config \<Rightarrow> anonymizer \<Rightarrow> RunState \<Rightarrow> string \<Rightarrow> string \<times> RunState" where
  "promptForApi cfg anon st p =
     (if anonymizePrompts cfg \<and> length (apiKeys cfg Google) > 0 then
        (let googleAiInstance =
               (if googleKeyIndex st < length (apiKeys cfg Google)
                then Some (googleKeyIndex st) else None)
         in if googleAiInstance \<noteq> None then anonymizePrompt anon st p googleAiInstance
            else (p, st))
      else (p, st))"

text \<open>The choice of \<^verbatim>\<open>keyIndexToTry\<close>; \<^const>\<open>Inl\<close> is the early \<^verbatim>\<open>return\<close> with
  an error message.\<close>

definition chooseKey :: "Config \<Rightarrow> RunState \<Rightarrow> nat \<Rightarrow> string + nat" where
  "chooseKey cfg st attempt =
     (let currentProvider = MODELS_provider (selectedModel cfg);
          keysForProvider = apiKeys cfg currentProvider
      in if isManualKeySelection cfg then
           (if attempt > 0 then Inl manualKeyMessage
            else Inr (activeKeyIndices cfg currentProvider))
         else
           (if attempt \<ge> length keysForProvider then Inl allKeysMessage
            else Inr ((keyIndexRef_current currentProvider st + attempt) mod length keysForProvider)))"

text \<open>
  The body of the \<^verbatim>\<open>try\<close> block up to the computation of \<^verbatim>\<open>imageUrl\<close>:
  \<^const>\<open>Inr\<close> is the URL, \<^const>\<open>Inl\<close> the value thrown. A Google model needs the
  client \<^verbatim>\<open>googleInstances[keyIndexToTry]\<close> (there is one per Google key) and throws
  before any request when it is missing; the OpenAI branch sends its request with
  whatever \<^verbatim>\<open>keysForProvider[keyIndexToTry]\<close> is.
\<close>

definition sendRequest :: "executor \<Rightarrow> RunState \<Rightarrow> nat \<Rightarrow> string \<Rightarrow> api_outcome \<times> RunState" where
  "sendRequest exec st k p =
     (exec (length (requests st)) k p, st\<lparr>requests := requests st @ [(k, p)]\<rparr>)"

definition imageOrThrow :: "string \<Rightarrow> string \<Rightarrow> api_outcome \<Rightarrow> js_error + string" where
  "imageOrThrow mime missing out =
     (case out of
        Threw e \<Rightarrow> Inl e
      | Responded None \<Rightarrow> Inl (new_Error missing)
      | Responded (Some b) \<Rightarrow>
          (if b = [] then Inl (new_Error missing) else Inr (''data:image/'' @ mime @ '';base64,'' @ b)))"

text \<open>What the selected model's branch makes of the answer to its request.\<close>

definition extractImage :: "Config \<Rightarrow> api_outcome \<Rightarrow> js_error + string" where
  "extractImage cfg out =
     (if MODELS_provider (selectedModel cfg) = Google then
        (if selectedModel cfg = google_imagen_4
         then imageOrThrow ''jpeg'' noImageMessage out
         else imageOrThrow ''png'' noImageMessage out)
      else imageOrThrow ''png'' ''Generation failed: No image data returned from OpenAI API.'' out)"

definition tryBlock ::
  "Config \<Rightarrow> executor \<Rightarrow> RunState \<Rightarrow> nat \<Rightarrow> string \<Rightarrow> (js_error + string) \<times> RunState" where
  "tryBlock cfg exec st keyIndexToTry p =
     (if MODELS_provider (selectedModel cfg) = Google
         \<and> \<not> keyIndexToTry < length (apiKeys cfg Google)
      then (Inl (new_Error ''Google AI instance not found''), st)
      else (case sendRequest exec st keyIndexToTry p of
              (out, st') \<Rightarrow> (extractImage cfg out, st')))"

function generateSingleImage ::
  "Config \<Rightarrow> executor \<Rightarrow> anonymizer \<Rightarrow> RunState \<Rightarrow> ImageResult \<Rightarrow> nat \<Rightarrow> ImageResult \<times> RunState" where
  "generateSingleImage cfg exec anon st resultToGenerate attempt =
     (let currentProvider = MODELS_provider (selectedModel cfg) in
      if length (apiKeys cfg currentProvider) = 0 then
        (resultToGenerate\<lparr>status := Error, error := Some (noKeysMessage currentProvider)\<rparr>, st)
      else
        (case promptForApi cfg anon st (prompt resultToGenerate) of
           (p, st1) \<Rightarrow>
             (case chooseKey cfg st1 attempt of
                Inl msg \<Rightarrow> (resultToGenerate\<lparr>status := Error, error := Some msg\<rparr>, st1)
              | Inr keyIndexToTry \<Rightarrow>
                  (case tryBlock cfg exec st1 keyIndexToTry p of
                     (Inr url, st2) \<Rightarrow>
                       (resultToGenerate\<lparr>imageUrl := Some url, status := Success, error := None\<rparr>,
                        if \<not> isManualKeySelection cfg
                        then (keyIndexRef_assign currentProvider keyIndexToTry st2)
                               \<lparr>nextActiveKeyIndices :=
                                  (nextActiveKeyIndices st2)(currentProvider := keyIndexToTry)\<rparr>
                        else st2)
                   | (Inl e, st2) \<Rightarrow>
                       (if isRateLimitError e \<and> \<not> isManualKeySelection cfg
                        then generateSingleImage cfg exec anon st2 resultToGenerate (attempt + 1)
                        else (resultToGenerate\<lparr>status := Error,
                                error := Some (handleError e currentProvider)\<rparr>, st2))))))"
  by pat_completeness auto
termination
  by (relation "measure (\<lambda>(cfg, exec, anon, st, r, attempt).
        length (apiKeys cfg (MODELS_provider (selectedModel cfg))) - attempt)")
     (auto simp: chooseKey_def Let_def split: if_splits)

section \<open>Key management (App)\<close>

text \<open>\<^verbatim>\<open>handleRemoveKey(keyToRemove, provider)\<close> as the update it passes to
  \<^verbatim>\<open>setApiKeys\<close>. The refs of the generator component are not in its scope.\<close>

definition handleRemoveKey ::
  "string \<Rightarrow> Provider \<Rightarrow> (Provider \<Rightarrow> string list) \<Rightarrow> (Provider \<Rightarrow> string list)" where
  "handleRemoveKey keyToRemove provider prevKeys =
     prevKeys(provider := filter (\<lambda>key. key \<noteq> keyToRemove) (prevKeys provider))"

section \<open>parseInt\<close>

text \<open>
  \<^verbatim>\<open>parseInt(s, 10)\<close>: leading white space is skipped, a sign is read, then the
  longest run of decimal digits; \<^const>\<open>None\<close> is \<^verbatim>\<open>NaN\<close>. The value is a JavaScript
  number, that is the double nearest to the integer read (ties to even), which is the
  integer itself below \<open>2^53\<close>. A number read from digits is an integer in any case, so
  it is kept as an \<^typ>\<open>int\<close>. Outside the model: a run of more than 308 digits, which
  reads as \<^verbatim>\<open>Infinity\<close>, and the freedom ECMAScript leaves an engine after the 20th
  significant digit.
\<close>

definition digitVal :: "char \<Rightarrow> nat option" where
  "digitVal c =
     (let code = (of_char c :: nat)
      in if 48 \<le> code \<and> code \<le> 57 then Some (code - 48) else None)"

fun digitsValue :: "int \<Rightarrow> string \<Rightarrow> int" where
  "digitsValue acc [] = acc"
| "digitsValue acc (c # cs) =
     (case digitVal c of None \<Rightarrow> acc | Some d \<Rightarrow> digitsValue (10 * acc + int d) cs)"

function bitLength :: "int \<Rightarrow> nat" where
  "bitLength n = (if n \<le> 0 then 0 else Suc (bitLength (n div 2)))"
  by pat_completeness auto
termination
  by (relation "measure nat") auto

text \<open>The double nearest to a natural number: its 53 leading bits, rounded on the bits
  that are cut, ties to even (\<open>9007199254740992\<close> is \<open>2^53\<close>).\<close>

definition toDouble :: "int \<Rightarrow> int" where
  "toDouble m =
     (if m < 9007199254740992 then m
      else (let e = bitLength m - 53; q = m div 2 ^ e; r = m mod 2 ^ e
            in if 2 * r > 2 ^ e \<or> (2 * r = 2 ^ e \<and> odd q) then (q + 1) * 2 ^ e
               else q * 2 ^ e))"

definition parseDigits :: "string \<Rightarrow> int option" where
  "parseDigits s =
     (case s of [] \<Rightarrow> None
      | c # cs \<Rightarrow> (if digitVal c = None then None else Some (toDouble (digitsValue 0 s))))"

definition parseInt :: "string \<Rightarrow> int option" where
  "parseInt s =
     (case dropLeading whiteSpaceCodes s of
        [] \<Rightarrow> None
      | c # cs \<Rightarrow>
          (if c = CHR ''-'' then map_option uminus (parseDigits cs)
           else if c = CHR ''+'' then parseDigits cs
           else parseDigits (c # cs)))"

section \<open>The worker pool (processQueue)\<close>

text \<open>
  A worker is an \<^verbatim>\<open>async\<close> function; between two of its suspension points it runs
  without interruption. It is suspended either in \<^verbatim>\<open>await generateSingleImage(item)\<close>
  or in the delay, or it has left its \<^verbatim>\<open>while\<close> loop.
\<close>

datatype Worker = Awaiting ImageResult | Delaying | Finished

record PoolState =
  queue :: "ImageResult list"
  results :: "ImageResult list"
  progress_current :: nat
  workers :: "Worker list"
  keyState :: RunState

text \<open>The two \<^verbatim>\<open>setResults\<close> updates.\<close>

definition markGenerating :: "ImageResult \<Rightarrow> ImageResult list \<Rightarrow> ImageResult list" where
  "markGenerating item prev =
     map (\<lambda>r. if id_str r = id_str item then r\<lparr>status := Generating\<rparr> else r) prev"

definition writeBack :: "ImageResult \<Rightarrow> ImageResult \<Rightarrow> ImageResult list \<Rightarrow> ImageResult list" where
  "writeBack item updatedResult prev =
     map (\<lambda>r. if id_str r = id_str item then updatedResult else r) prev"

text \<open>From the loop test to the call of \<^verbatim>\<open>generateSingleImage\<close>: the worker leaves the
  loop on an empty queue, and otherwise shifts an item and marks it.\<close>

definition loopHead :: "PoolState \<Rightarrow> Worker \<times> PoolState" where
  "loopHead ps =
     (case queue ps of
        [] \<Rightarrow> (Finished, ps)
      | item # rest \<Rightarrow>
          (Awaiting item, ps\<lparr>queue := rest, results := markGenerating item (results ps)\<rparr>))"

text \<open>\<^verbatim>\<open>Array(concurrencyLimit).fill(null).map(async () => ...)\<close> starts the workers
  one after the other, each running up to its first suspension.\<close>

definition spawnWorker :: "PoolState \<Rightarrow> PoolState" where
  "spawnWorker ps = (case loopHead ps of (w, ps') \<Rightarrow> ps'\<lparr>workers := workers ps' @ [w]\<rparr>)"

text \<open>
  Worker \<open>i\<close> is resumed. If it was awaiting an item, the call's result is written
  back, the progress counter is bumped, and the worker either starts its delay or goes
  round the loop; if it was in its delay it goes round the loop. The awaited call is
  run as one step, from the key state at the moment of resumption.
\<close>

definition resume ::
  "Config \<Rightarrow> executor \<Rightarrow> anonymizer \<Rightarrow> nat \<Rightarrow> PoolState \<Rightarrow> nat \<Rightarrow> PoolState" where
  "resume cfg exec anon requestDelay ps i =
     (if \<not> i < length (workers ps) then ps
      else case workers ps ! i of
        Finished \<Rightarrow> ps
      | Delaying \<Rightarrow>
          (case loopHead ps of (w, ps') \<Rightarrow> ps'\<lparr>workers := (workers ps')[i := w]\<rparr>)
      | Awaiting item \<Rightarrow>
          (case generateSingleImage cfg exec anon (keyState ps) item 0 of
             (updatedResult, st') \<Rightarrow>
               (let ps1 = ps\<lparr>results := writeBack item updatedResult (results ps),
                             progress_current := progress_current ps + 1,
                             keyState := st'\<rparr>
                in if length (queue ps1) > 0 \<and> requestDelay > 0
                   then ps1\<lparr>workers := (workers ps1)[i := Delaying]\<rparr>
                   else (case loopHead ps1 of
                           (w, ps') \<Rightarrow> ps'\<lparr>workers := (workers ps')[i := w]\<rparr>))))"

text \<open>\<^verbatim>\<open>Promise.all(workers)\<close> has resolved when every worker has left its loop.\<close>

definition resolved :: "PoolState \<Rightarrow> bool" where
  "resolved ps = list_all (\<lambda>w. w = Finished) (workers ps)"

text \<open>
  The pool run on a task list: \<open>schedule\<close> is the order in which the event loop
  resumes the workers (each entry is a worker's index), so every interleaving of the
  workers is a schedule.
\<close>

definition processQueue ::
  "Config \<Rightarrow> executor \<Rightarrow> anonymizer \<Rightarrow> nat \<Rightarrow> nat \<Rightarrow> nat list \<Rightarrow> RunState
     \<Rightarrow> ImageResult list \<Rightarrow> PoolState" where
  "processQueue cfg exec anon concurrencyLimit requestDelay schedule st initialResults =
     foldl (resume cfg exec anon requestDelay)
       ((spawnWorker ^^ concurrencyLimit)
          \<lparr>queue = initialResults, results = initialResults, progress_current = 0,
           workers = [], keyState = st\<rparr>)
       schedule"

section \<open>handleStartGeneration\<close>

datatype Alert =
    NoPromptsAlert
  | NoKeysAlert Provider
  | InvalidRangeAlert
  | EmptyRangeAlert int int

record Inputs =
  prompts :: "CsvRow list"
  startId :: string
  endId :: string
  concurrencyLimit :: nat
  requestDelay :: nat

text \<open>\<^verbatim>\<open>pNum >= startNum && pNum <= endNum\<close>; a comparison with \<^verbatim>\<open>NaN\<close> is false.\<close>

definition inRange :: "int \<Rightarrow> int \<Rightarrow> CsvRow \<Rightarrow> bool" where
  "inRange startNum endNum p =
     (case parseInt (id_str p) of None \<Rightarrow> False | Some pNum \<Rightarrow> pNum \<ge> startNum \<and> pNum \<le> endNum)"

text \<open>The checks at the head of \<^verbatim>\<open>handleStartGeneration\<close>, up to the value of
  \<^verbatim>\<open>promptsToGenerate\<close>; \<^const>\<open>Inl\<close> is \<^verbatim>\<open>return alert(...)\<close>.\<close>

definition promptsToGenerate :: "Config \<Rightarrow> Inputs \<Rightarrow> Alert + CsvRow list" where
  "promptsToGenerate cfg inp =
     (let activeProvider = MODELS_provider (selectedModel cfg) in
      if length (prompts inp) = 0 then Inl NoPromptsAlert
      else if length (apiKeys cfg activeProvider) = 0 then Inl (NoKeysAlert activeProvider)
      else if trim (startId inp) \<noteq> [] \<or> trim (endId inp) \<noteq> [] then
        (case (parseInt (startId inp), parseInt (endId inp)) of
           (Some startNum, Some endNum) \<Rightarrow>
             (if startNum > endNum then Inl InvalidRangeAlert
              else (let sel = filter (inRange startNum endNum) (prompts inp)
                    in if length sel = 0 then Inl (EmptyRangeAlert startNum endNum)
                       else Inr sel))
         | _ \<Rightarrow> Inl InvalidRangeAlert)
      else Inr (prompts inp))"

definition initialResult :: "CsvRow \<Rightarrow> ImageResult" where
  "initialResult p = CsvRow.extend p (ImageResult.fields None Pending None)"

datatype StartOutcome = Alerted Alert | Ran PoolState

definition handleStartGeneration ::
  "Config \<Rightarrow> Inputs \<Rightarrow> executor \<Rightarrow> anonymizer \<Rightarrow> nat list \<Rightarrow> RunState \<Rightarrow> StartOutcome" where
  "handleStartGeneration cfg inp exec anon schedule st =
     (case promptsToGenerate cfg inp of
        Inl a \<Rightarrow> Alerted a
      | Inr sel \<Rightarrow>
          (let activeProvider = MODELS_provider (selectedModel cfg);
               st0 = (if isManualKeySelection cfg
                      then keyIndexRef_assign activeProvider (activeKeyIndices cfg activeProvider) st
                      else st)
           in Ran (processQueue cfg exec anon (concurrencyLimit inp) (requestDelay inp)
                     schedule st0 (map initialResult sel))))"

section \<open>Classification of answers, and concrete scenarios\<close>

text \<open>An answer to an image request that the \<^verbatim>\<open>catch\<close> block classifies as a
  rate-limit failure.\<close>

definition rateLimited :: "api_outcome \<Rightarrow> bool" where
  "rateLimited out = (case out of Threw e \<Rightarrow> isRateLimitError e | Responded b \<Rightarrow> False)"

text \<open>The component right after mounting: both refs are 0, \<^verbatim>\<open>activeKeyIndices\<close> is
  \<^verbatim>\<open>{ google: 0, openai: 0 }\<close>, nothing has been sent.\<close>

definition st_initial :: RunState where
  "st_initial = \<lparr> googleKeyIndex = 0, openaiKeyIndex = 0, nextActiveKeyIndices = (\<lambda>p. 0),
                   requests = [], anonRequests = [] \<rparr>"

definition task_cat :: ImageResult where
  "task_cat = initialResult \<lparr> id_str = ''1'', prompt = ''a cat'' \<rparr>"

definition keys_ab :: "Provider \<Rightarrow> string list" where
  "keys_ab = (\<lambda>p. [''key-a'', ''key-b''])"

definition keys_google_only :: "Provider \<Rightarrow> string list" where
  "keys_google_only = (\<lambda>p. if p = Google then [''key-a''] else [])"

definition cfg_auto :: "Model \<Rightarrow> Config" where
  "cfg_auto m = \<lparr> selectedModel = m, apiKeys = keys_ab, isManualKeySelection = False,
                  activeKeyIndices = (\<lambda>p. 0), anonymizePrompts = True \<rparr>"

definition cfg_manual :: "Model \<Rightarrow> Config" where
  "cfg_manual m = \<lparr> selectedModel = m, apiKeys = keys_ab, isManualKeySelection = True,
                    activeKeyIndices = (\<lambda>p. 1), anonymizePrompts = True \<rparr>"

definition cfg_no_openai_key :: Config where
  "cfg_no_openai_key = \<lparr> selectedModel = openai_dalle3, apiKeys = keys_google_only,
       isManualKeySelection = False, activeKeyIndices = (\<lambda>p. 0), anonymizePrompts = True \<rparr>"

definition rate_limit_error :: js_error where
  \<open>rate_limit_error =
     \<lparr> inner_code = Some (CodeStr ''rate_limit_exceeded''), inner_status = None,
       inner_message = Some ''Rate limit reached'', message = None, parsed_message = None,
       json = ''{"error":{"message":"Rate limit reached","code":"rate_limit_exceeded"}}'' \<rparr>\<close>


definition exec_rate_limited :: executor where
  "exec_rate_limited = (\<lambda>n k p. Threw rate_limit_error)"

definition exec_second_key_works :: executor where
  "exec_second_key_works =
     (\<lambda>n k p. if k = 0 then Threw rate_limit_error else Responded (Some ''aGVsbG8=''))"


definition exec_no_image :: executor where
  "exec_no_image = (\<lambda>n k p. Responded None)"

definition anon_throws :: anonymizer where
  "anon_throws = (\<lambda>n k p. AnonThrew)"




definition task_dog :: ImageResult where
  "task_dog = initialResult \<lparr> id_str = ''2'', prompt = ''a dog'' \<rparr>"

definition rows_12358 :: "CsvRow list" where
  "rows_12358 = [\<lparr> id_str = ''1'', prompt = ''a cat'' \<rparr>, \<lparr> id_str = ''2'', prompt = ''a dog'' \<rparr>,
                 \<lparr> id_str = ''3'', prompt = ''a fox'' \<rparr>, \<lparr> id_str = ''5'', prompt = ''an owl'' \<rparr>,
                 \<lparr> id_str = ''8'', prompt = ''a bee'' \<rparr>]"

definition inp_range :: "string \<Rightarrow> string \<Rightarrow> Inputs" where
  "inp_range a b = \<lparr> prompts = rows_12358, startId = a, endId = b, concurrencyLimit = 1,
                      requestDelay = 1000 \<rparr>"

text \<open>The configuration of the render after \<^verbatim>\<open>key-b\<close> was removed from the Google
  list, and a state whose Google cursor is still 1 from an earlier success.\<close>

definition cfg_after_removal :: Config where
  "cfg_after_removal =
     (cfg_auto google_imagen_4)\<lparr>apiKeys := handleRemoveKey ''key-b'' Google keys_ab\<rparr>"

definition st_cursor_1 :: RunState where
  "st_cursor_1 = st_initial\<lparr>googleKeyIndex := 1\<rparr>"

section \<open>Notions used in the statements and proofs\<close>





text \<open>A terminal status.\<close>

definition terminal :: "ImageResult \<Rightarrow> bool" where
  "terminal r = (status r = Success \<or> status r = Error)"

text \<open>
  The invariant of the pool. Every result record that is not terminal belongs to an item
  still in the queue or to an item some worker is awaiting (records and items are matched
  by \<^verbatim>\<open>id\<close>, as \<^verbatim>\<open>setResults\<close> does); the ids of the records are those of the
  tasks, in order; and once a worker has left its loop the queue is empty.
\<close>

definition covered :: "Worker list \<Rightarrow> ImageResult list \<Rightarrow> ImageResult list \<Rightarrow> bool" where
  "covered ws q rs =
     (\<forall>r\<in>set rs. terminal r \<or> id_str r \<in> id_str ` set q
                   \<or> (\<exists>item. Awaiting item \<in> set ws \<and> id_str item = id_str r))"

definition poolInv :: "ImageResult list \<Rightarrow> PoolState \<Rightarrow> bool" where
  "poolInv tasks ps =
     (map id_str (results ps) = map id_str tasks
      \<and> covered (workers ps) (queue ps) (results ps)
      \<and> (Finished \<in> set (workers ps) \<longrightarrow> queue ps = []))"

text \<open>The work left: each resumption of a worker that has not left its loop makes it
  smaller.\<close>

fun weight :: "Worker \<Rightarrow> nat" where
  "weight (Awaiting item) = 2"
| "weight Delaying = 1"
| "weight Finished = 0"

definition remainingWork :: "PoolState \<Rightarrow> nat" where
  "remainingWork ps = 2 * length (queue ps) + sum_list (map weight (workers ps))"

text \<open>The two halves of a resumption, named for the proofs: going round the loop, and
  writing an awaited result back.\<close>

definition goRound :: "PoolState \<Rightarrow> nat \<Rightarrow> PoolState" where
  "goRound ps i = (case loopHead ps of (w, ps') \<Rightarrow> ps'\<lparr>workers := (workers ps')[i := w]\<rparr>)"

definition settle :: "ImageResult \<Rightarrow> ImageResult \<Rightarrow> RunState \<Rightarrow> nat \<Rightarrow> PoolState \<Rightarrow> PoolState" where
  "settle item upd st' i ps =
     ps\<lparr>results := writeBack item upd (results ps),
        progress_current := progress_current ps + 1,
        keyState := st',
        workers := (workers ps)[i := Delaying]\<rparr>"

declare generateSingleImage.simps [simp del]
declare dropLeading.simps [simp del]
declare bitLength.simps [simp del]

section \<open>Properties of generateSingleImage\<close>


lemma extractImage_Threw: "extractImage cfg (Threw e) = Inl e"
  by (simp add: extractImage_def imageOrThrow_def)

lemma promptForApi_frame:
  assumes "promptForApi cfg anon st p = (q, st1)"
  shows "googleKeyIndex st1 = googleKeyIndex st" "openaiKeyIndex st1 = openaiKeyIndex st"
    "nextActiveKeyIndices st1 = nextActiveKeyIndices st" "requests st1 = requests st"
  using assms
  by (auto simp: promptForApi_def anonymizePrompt_def Let_def
      split: if_splits option.splits anon_outcome.splits)

lemma tryBlock_frame:
  assumes "tryBlock cfg exec st k p = (r, st2)"
  shows "googleKeyIndex st2 = googleKeyIndex st" "openaiKeyIndex st2 = openaiKeyIndex st"
    "nextActiveKeyIndices st2 = nextActiveKeyIndices st" "anonRequests st2 = anonRequests st"
  using assms
  by (auto simp: tryBlock_def sendRequest_def split: if_splits)

lemma tryBlock_sent:
  assumes "k < length (apiKeys cfg (MODELS_provider (selectedModel cfg)))"
  shows "tryBlock cfg exec st k p =
           (extractImage cfg (exec (length (requests st)) k p),
            st\<lparr>requests := requests st @ [(k, p)]\<rparr>)"
  using assms by (auto simp: tryBlock_def sendRequest_def)

lemma tryBlock_requests:
  assumes "tryBlock cfg exec st k p = (r, st2)"
    and "k < length (apiKeys cfg (MODELS_provider (selectedModel cfg)))"
  shows "requests st2 = requests st @ [(k, p)]"
  using assms by (auto simp: tryBlock_sent)


lemma chooseKey_Inr_auto:
  "chooseKey cfg st attempt = Inr k \<Longrightarrow> \<not> isManualKeySelection cfg \<Longrightarrow>
     attempt < length (apiKeys cfg (MODELS_provider (selectedModel cfg)))
     \<and> k = (keyIndexRef_current (MODELS_provider (selectedModel cfg)) st + attempt)
              mod length (apiKeys cfg (MODELS_provider (selectedModel cfg)))"
  by (auto simp: chooseKey_def Let_def split: if_splits)

lemma gen_cases [consumes 1, case_names NoKeys Early Succeeded Retry Failed]:
  assumes "generateSingleImage cfg exec anon st task attempt = (res, st')"
  obtains
    (NoKeys) "apiKeys cfg (MODELS_provider (selectedModel cfg)) = []"
      "res = task\<lparr>status := Error, error := Some (noKeysMessage (MODELS_provider (selectedModel cfg)))\<rparr>"
      "st' = st"
  | (Early) p st1 msg where "apiKeys cfg (MODELS_provider (selectedModel cfg)) \<noteq> []"
      "promptForApi cfg anon st (prompt task) = (p, st1)"
      "chooseKey cfg st1 attempt = Inl msg"
      "res = task\<lparr>status := Error, error := Some msg\<rparr>" "st' = st1"
  | (Succeeded) p st1 k url st2 where "apiKeys cfg (MODELS_provider (selectedModel cfg)) \<noteq> []"
      "promptForApi cfg anon st (prompt task) = (p, st1)"
      "chooseKey cfg st1 attempt = Inr k"
      "tryBlock cfg exec st1 k p = (Inr url, st2)"
      "res = task\<lparr>imageUrl := Some url, status := Success, error := None\<rparr>"
      "st' = (if \<not> isManualKeySelection cfg
              then (keyIndexRef_assign (MODELS_provider (selectedModel cfg)) k st2)
                     \<lparr>nextActiveKeyIndices :=
                        (nextActiveKeyIndices st2)(MODELS_provider (selectedModel cfg) := k)\<rparr>
              else st2)"
  | (Retry) p st1 k e st2 where "apiKeys cfg (MODELS_provider (selectedModel cfg)) \<noteq> []"
      "promptForApi cfg anon st (prompt task) = (p, st1)"
      "chooseKey cfg st1 attempt = Inr k"
      "tryBlock cfg exec st1 k p = (Inl e, st2)"
      "isRateLimitError e" "\<not> isManualKeySelection cfg"
      "generateSingleImage cfg exec anon st2 task (attempt + 1) = (res, st')"
  | (Failed) p st1 k e st2 where "apiKeys cfg (MODELS_provider (selectedModel cfg)) \<noteq> []"
      "promptForApi cfg anon st (prompt task) = (p, st1)"
      "chooseKey cfg st1 attempt = Inr k"
      "tryBlock cfg exec st1 k p = (Inl e, st2)"
      "\<not> (isRateLimitError e \<and> \<not> isManualKeySelection cfg)"
      "res = task\<lparr>status := Error, error := Some (handleError e (MODELS_provider (selectedModel cfg)))\<rparr>"
      "st' = st2"
proof -
  let ?prov = "MODELS_provider (selectedModel cfg)"
  note unf = assms[unfolded generateSingleImage.simps[of cfg exec anon st task attempt]]
  show thesis
  proof (cases "apiKeys cfg ?prov = []")
    case True
    with unf show thesis by (intro NoKeys) (auto simp: Let_def)
  next
    case nonempty: False
    obtain p st1 where pf: "promptForApi cfg anon st (prompt task) = (p, st1)"
      by (cases "promptForApi cfg anon st (prompt task)")
    show thesis
    proof (cases "chooseKey cfg st1 attempt")
      case (Inl msg)
      with unf nonempty pf show thesis by (intro Early[of p st1 msg]) (auto simp: Let_def)
    next
      case (Inr k)
      obtain out st2 where tb: "tryBlock cfg exec st1 k p = (out, st2)"
        by (cases "tryBlock cfg exec st1 k p")
      show thesis
      proof (cases out)
        case (Inr url)
        with unf nonempty pf \<open>chooseKey cfg st1 attempt = Inr k\<close> tb show thesis
          by (intro Succeeded[of p st1 k url st2]) (auto simp: Let_def)
      next
        case (Inl e)
        show thesis
        proof (cases "isRateLimitError e \<and> \<not> isManualKeySelection cfg")
          case True
          with unf nonempty pf \<open>chooseKey cfg st1 attempt = Inr k\<close> tb Inl show thesis
            by (intro Retry[of p st1 k e st2]) (auto simp: Let_def)
        next
          case False
          with unf nonempty pf \<open>chooseKey cfg st1 attempt = Inr k\<close> tb Inl show thesis
            by (intro Failed[of p st1 k e st2]) (auto simp: Let_def)
        qed
      qed
    qed
  qed
qed

lemma gen_shape:
  "generateSingleImage cfg exec anon st task attempt = (res, st') \<Longrightarrow>
     (status res = Success \<or> status res = Error) \<and> id_str res = id_str task \<and> prompt res = prompt task"
proof (induction "length (apiKeys cfg (MODELS_provider (selectedModel cfg))) - attempt"
        arbitrary: attempt st rule: less_induct)
  case less
  from less.prems show ?case
  proof (cases rule: gen_cases)
    case (Retry p st1 k e st2)
    from chooseKey_Inr_auto[OF Retry(3,6)]
    have "length (apiKeys cfg (MODELS_provider (selectedModel cfg))) - (attempt + 1)
            < length (apiKeys cfg (MODELS_provider (selectedModel cfg))) - attempt" by arith
    from less.hyps[OF this Retry(7)] show ?thesis .
  qed simp_all
qed

lemma auto_exhausted:
  assumes "\<not> isManualKeySelection cfg"
    and "apiKeys cfg (MODELS_provider (selectedModel cfg)) \<noteq> []"
    and "length (apiKeys cfg (MODELS_provider (selectedModel cfg))) \<le> attempt"
  shows "generateSingleImage cfg exec anon st r attempt =
           (r\<lparr>status := Error, error := Some allKeysMessage\<rparr>,
            snd (promptForApi cfg anon st (prompt r)))"
  using assms
  by (subst generateSingleImage.simps) (simp add: chooseKey_def Let_def split: prod.splits)

lemma auto_step:
  assumes "\<not> isManualKeySelection cfg"
    and "attempt < length (apiKeys cfg (MODELS_provider (selectedModel cfg)))"
    and "promptForApi cfg anon st (prompt r) = (p, st1)"
    and "tryBlock cfg exec st1
           ((keyIndexRef_current (MODELS_provider (selectedModel cfg)) st1 + attempt)
              mod length (apiKeys cfg (MODELS_provider (selectedModel cfg)))) p = (out, st2)"
  shows "generateSingleImage cfg exec anon st r attempt =
           (case out of
              Inr url \<Rightarrow>
                (r\<lparr>imageUrl := Some url, status := Success, error := None\<rparr>,
                 (keyIndexRef_assign (MODELS_provider (selectedModel cfg))
                    ((keyIndexRef_current (MODELS_provider (selectedModel cfg)) st1 + attempt)
                       mod length (apiKeys cfg (MODELS_provider (selectedModel cfg)))) st2)
                   \<lparr>nextActiveKeyIndices := (nextActiveKeyIndices st2)
                      (MODELS_provider (selectedModel cfg) :=
                         (keyIndexRef_current (MODELS_provider (selectedModel cfg)) st1 + attempt)
                           mod length (apiKeys cfg (MODELS_provider (selectedModel cfg))))\<rparr>)
            | Inl e \<Rightarrow>
                (if isRateLimitError e
                 then generateSingleImage cfg exec anon st2 r (attempt + 1)
                 else (r\<lparr>status := Error,
                         error := Some (handleError e (MODELS_provider (selectedModel cfg)))\<rparr>, st2)))"
  using assms
  by (subst generateSingleImage.simps) (auto simp: chooseKey_def Let_def split: sum.splits)

lemma tryBlock_rateLimited:
  assumes "tryBlock cfg exec st k p = (out, st2)"
    and "k < length (apiKeys cfg (MODELS_provider (selectedModel cfg)))"
    and "rateLimited (exec (length (requests st)) k p)"
  shows "\<exists>e. out = Inl e \<and> isRateLimitError e"
proof -
  from assms(3) obtain e where "exec (length (requests st)) k p = Threw e" "isRateLimitError e"
    by (auto simp: rateLimited_def split: api_outcome.splits)
  with assms(1,2) show ?thesis
    by (auto simp: tryBlock_sent extractImage_Threw)
qed

lemma rotation_general:
  assumes auto: "\<not> isManualKeySelection cfg"
    and le: "attempt \<le> length (apiKeys cfg (MODELS_provider (selectedModel cfg)))"
    and pos: "apiKeys cfg (MODELS_provider (selectedModel cfg)) \<noteq> []"
    and run: "generateSingleImage cfg exec anon st r attempt = (res, st')"
  shows "\<exists>new. requests st' = requests st @ new
           \<and> length new \<le> length (apiKeys cfg (MODELS_provider (selectedModel cfg))) - attempt
           \<and> (\<forall>j<length new. fst (new ! j) =
                 (keyIndexRef_current (MODELS_provider (selectedModel cfg)) st + attempt + j)
                   mod length (apiKeys cfg (MODELS_provider (selectedModel cfg))))
           \<and> ((\<forall>j<length new. rateLimited
                   (exec (length (requests st) + j) (fst (new ! j)) (snd (new ! j)))) \<longrightarrow>
                 length new = length (apiKeys cfg (MODELS_provider (selectedModel cfg))) - attempt
                 \<and> res = r\<lparr>status := Error, error := Some allKeysMessage\<rparr>)"
  using le run
proof (induction "length (apiKeys cfg (MODELS_provider (selectedModel cfg))) - attempt"
         arbitrary: attempt st)
  case 0
  let ?prov = "MODELS_provider (selectedModel cfg)"
  let ?n = "length (apiKeys cfg ?prov)"
  from 0 have "?n \<le> attempt" by simp
  with auto pos have "generateSingleImage cfg exec anon st r attempt =
      (r\<lparr>status := Error, error := Some allKeysMessage\<rparr>, snd (promptForApi cfg anon st (prompt r)))"
    by (intro auto_exhausted) auto
  with "0.prems"(2) have res: "res = r\<lparr>status := Error, error := Some allKeysMessage\<rparr>"
    and st': "st' = snd (promptForApi cfg anon st (prompt r))" by auto
  have "requests st' = requests st"
    unfolding st' using promptForApi_frame(4)[of cfg anon st "prompt r"]
    by (cases "promptForApi cfg anon st (prompt r)") auto
  with res 0 show ?case by simp
next
  case (Suc d)
  let ?prov = "MODELS_provider (selectedModel cfg)"
  let ?n = "length (apiKeys cfg ?prov)"
  from Suc have lt: "attempt < ?n" by simp
  obtain p st1 where pf: "promptForApi cfg anon st (prompt r) = (p, st1)"
    by (cases "promptForApi cfg anon st (prompt r)")
  let ?k = "(keyIndexRef_current ?prov st1 + attempt) mod ?n"
  obtain out st2 where tb: "tryBlock cfg exec st1 ?k p = (out, st2)"
    by (cases "tryBlock cfg exec st1 ?k p")
  have cur1: "keyIndexRef_current ?prov st1 = keyIndexRef_current ?prov st"
    using promptForApi_frame[OF pf] by (simp add: keyIndexRef_current_def)
  have cur2: "keyIndexRef_current ?prov st2 = keyIndexRef_current ?prov st"
    using tryBlock_frame[OF tb] promptForApi_frame[OF pf] by (simp add: keyIndexRef_current_def)
  have klt: "?k < ?n" using pos by simp
  have req2: "requests st2 = requests st @ [(?k, p)]"
    using tryBlock_requests[OF tb klt] promptForApi_frame(4)[OF pf] by simp
  note step = auto_step[OF auto lt pf tb]
  have rl: "rateLimited (exec (length (requests st)) ?k p) \<Longrightarrow> \<exists>e. out = Inl e \<and> isRateLimitError e"
    using tryBlock_rateLimited[OF tb klt] promptForApi_frame(4)[OF pf] by simp
  show ?case
  proof (cases "\<exists>e. out = Inl e \<and> isRateLimitError e")
    case True
    then obtain e where e: "out = Inl e" "isRateLimitError e" by blast
    with step Suc.prems(2) have rec: "generateSingleImage cfg exec anon st2 r (attempt + 1) = (res, st')"
      by simp
    have "d = ?n - (attempt + 1)" using Suc.hyps(2) by simp
    moreover have "attempt + 1 \<le> ?n" using lt by simp
    ultimately have "\<exists>new. requests st' = requests st2 @ new \<and> length new \<le> ?n - (attempt + 1)
      \<and> (\<forall>j<length new. fst (new ! j) = (keyIndexRef_current ?prov st2 + (attempt + 1) + j) mod ?n)
      \<and> ((\<forall>j<length new. rateLimited
            (exec (length (requests st2) + j) (fst (new ! j)) (snd (new ! j)))) \<longrightarrow>
          length new = ?n - (attempt + 1) \<and> res = r\<lparr>status := Error, error := Some allKeysMessage\<rparr>)"
      using rec by (rule Suc.hyps(1))
    then obtain new where new: "requests st' = requests st2 @ new" "length new \<le> ?n - (attempt + 1)"
      "\<forall>j<length new. fst (new ! j) = (keyIndexRef_current ?prov st2 + (attempt + 1) + j) mod ?n"
      "(\<forall>j<length new. rateLimited
            (exec (length (requests st2) + j) (fst (new ! j)) (snd (new ! j)))) \<longrightarrow>
          length new = ?n - (attempt + 1) \<and> res = r\<lparr>status := Error, error := Some allKeysMessage\<rparr>"
      by blast
    let ?new = "(?k, p) # new"
    have a: "requests st' = requests st @ ?new" using new(1) req2 by simp
    have b: "length ?new \<le> ?n - attempt" using new(2) lt by simp
    have c: "\<forall>j<length ?new. fst (?new ! j) = (keyIndexRef_current ?prov st + attempt + j) mod ?n"
    proof (intro allI impI)
      fix j assume "j < length ?new"
      then show "fst (?new ! j) = (keyIndexRef_current ?prov st + attempt + j) mod ?n"
        using new(3) cur1 cur2 by (cases j) (auto simp: add.assoc)
    qed
    have d: "(\<forall>j<length ?new. rateLimited
            (exec (length (requests st) + j) (fst (?new ! j)) (snd (?new ! j)))) \<longrightarrow>
          length ?new = ?n - attempt \<and> res = r\<lparr>status := Error, error := Some allKeysMessage\<rparr>"
    proof
      assume all: "\<forall>j<length ?new. rateLimited
            (exec (length (requests st) + j) (fst (?new ! j)) (snd (?new ! j)))"
      have "\<forall>j<length new. rateLimited
            (exec (length (requests st2) + j) (fst (new ! j)) (snd (new ! j)))"
      proof (intro allI impI)
        fix j assume "j < length new"
        then have "Suc j < length ?new" by simp
        from all[rule_format, OF this] show "rateLimited
            (exec (length (requests st2) + j) (fst (new ! j)) (snd (new ! j)))"
          by (simp add: req2)
      qed
      with new(4) lt show "length ?new = ?n - attempt
          \<and> res = r\<lparr>status := Error, error := Some allKeysMessage\<rparr>" by auto
    qed
    from a b c d show ?thesis by blast
  next
    case False
    with rl have nrl: "\<not> rateLimited (exec (length (requests st)) ?k p)" by blast
    from False step Suc.prems(2) have "st' = st2 \<or> st' = (keyIndexRef_assign ?prov ?k st2)
                   \<lparr>nextActiveKeyIndices := (nextActiveKeyIndices st2)(?prov := ?k)\<rparr>"
      by (auto split: sum.splits if_splits)
    then have a: "requests st' = requests st @ [(?k, p)]"
      using req2 by (auto simp: keyIndexRef_assign_def)
    have b: "length [(?k, p)] \<le> ?n - attempt" using lt by simp
    have c: "\<forall>j<length [(?k, p)]. fst ([(?k, p)] ! j) = (keyIndexRef_current ?prov st + attempt + j) mod ?n"
      using cur1 by simp
    have d: "\<not> (\<forall>j<length [(?k, p)]. rateLimited
            (exec (length (requests st) + j) (fst ([(?k, p)] ! j)) (snd ([(?k, p)] ! j))))"
      using nrl by simp
    from a b c d show ?thesis by blast
  qed
qed

subsection \<open>Runs without keys\<close>


lemma resume_keyState_nokeys:
  assumes "apiKeys cfg (MODELS_provider (selectedModel cfg)) = []"
  shows "keyState (resume cfg exec anon d ps i) = keyState ps"
  using assms
  by (auto simp: resume_def loopHead_def Let_def generateSingleImage.simps[of cfg]
      split: Worker.splits list.splits prod.splits)

lemma spawn_keyState: "keyState ((spawnWorker ^^ n) ps) = keyState ps"
  by (induction n) (auto simp: spawnWorker_def loopHead_def split: list.splits)

lemma foldl_resume_keyState_nokeys:
  assumes "apiKeys cfg (MODELS_provider (selectedModel cfg)) = []"
  shows "keyState (foldl (resume cfg exec anon d) ps sched) = keyState ps"
  by (induction sched arbitrary: ps) (simp_all add: resume_keyState_nokeys[OF assms])


section \<open>Properties of the worker pool\<close>

subsection \<open>The invariant is kept\<close>

lemma markGenerating_ids: "map id_str (markGenerating item rs) = map id_str rs"
  by (induction rs) (auto simp: markGenerating_def)

lemma writeBack_ids:
  "id_str upd = id_str item \<Longrightarrow> map id_str (writeBack item upd rs) = map id_str rs"
  by (induction rs) (auto simp: writeBack_def)

lemma covered_shift:
  assumes "covered ws (item # rest) rs"
    and "\<And>x. Awaiting x \<in> set ws \<Longrightarrow> Awaiting x \<in> set ws'"
    and "Awaiting item \<in> set ws'"
  shows "covered ws' rest (markGenerating item rs)"
  unfolding covered_def
proof
  fix r' assume "r' \<in> set (markGenerating item rs)"
  then obtain r where r: "r \<in> set rs"
    "r' = (if id_str r = id_str item then r\<lparr>status := Generating\<rparr> else r)"
    by (auto simp: markGenerating_def)
  show "terminal r' \<or> id_str r' \<in> id_str ` set rest
          \<or> (\<exists>x. Awaiting x \<in> set ws' \<and> id_str x = id_str r')"
  proof (cases "id_str r = id_str item")
    case True
    with r assms(3) show ?thesis by auto
  next
    case False
    with r have eq: "r' = r" by simp
    from assms(1) r(1) have "terminal r \<or> id_str r \<in> id_str ` set (item # rest)
          \<or> (\<exists>x. Awaiting x \<in> set ws \<and> id_str x = id_str r)"
      by (auto simp: covered_def)
    with False eq assms(2) show ?thesis by auto
  qed
qed

lemma covered_writeBack:
  assumes "covered ws q rs" and "terminal upd" and "id_str upd = id_str item"
    and "\<And>x. Awaiting x \<in> set ws \<Longrightarrow> Awaiting x \<in> set ws' \<or> id_str x = id_str item"
  shows "covered ws' q (writeBack item upd rs)"
  unfolding covered_def
proof
  fix r' assume "r' \<in> set (writeBack item upd rs)"
  then obtain r where r: "r \<in> set rs" "r' = (if id_str r = id_str item then upd else r)"
    by (auto simp: writeBack_def)
  show "terminal r' \<or> id_str r' \<in> id_str ` set q
          \<or> (\<exists>x. Awaiting x \<in> set ws' \<and> id_str x = id_str r')"
  proof (cases "id_str r = id_str item")
    case True
    with r assms(2) show ?thesis by simp
  next
    case False
    with r have eq: "r' = r" by simp
    from assms(1) r(1) have "terminal r \<or> id_str r \<in> id_str ` set q
          \<or> (\<exists>x. Awaiting x \<in> set ws \<and> id_str x = id_str r)"
      by (auto simp: covered_def)
    with False eq assms(4) show ?thesis by metis
  qed
qed

lemma goRound_Nil: "queue ps = [] \<Longrightarrow> goRound ps i = ps\<lparr>workers := (workers ps)[i := Finished]\<rparr>"
  by (simp add: goRound_def loopHead_def)

lemma goRound_Cons:
  "queue ps = item # rest \<Longrightarrow>
   goRound ps i = ps\<lparr>queue := rest, results := markGenerating item (results ps),
                      workers := (workers ps)[i := Awaiting item]\<rparr>"
  by (simp add: goRound_def loopHead_def)

lemma goRound_overwrite:
  "goRound (ps\<lparr>workers := (workers ps)[i := w0]\<rparr>) i = goRound ps i"
  by (cases "queue ps") (simp_all add: goRound_Nil goRound_Cons)

lemma resume_Finished:
  "i < length (workers ps) \<Longrightarrow> workers ps ! i = Finished \<Longrightarrow> resume cfg exec anon d ps i = ps"
  by (simp add: resume_def)

lemma resume_out_of_range:
  "\<not> i < length (workers ps) \<Longrightarrow> resume cfg exec anon d ps i = ps"
  by (simp add: resume_def)

lemma resume_Delaying:
  "i < length (workers ps) \<Longrightarrow> workers ps ! i = Delaying \<Longrightarrow>
   resume cfg exec anon d ps i = goRound ps i"
  by (simp add: resume_def goRound_def)

lemma resume_Awaiting:
  assumes "i < length (workers ps)" and "workers ps ! i = Awaiting item"
    and "generateSingleImage cfg exec anon (keyState ps) item 0 = (upd, st')"
  shows "resume cfg exec anon d ps i =
           (if queue ps \<noteq> [] \<and> d > 0 then settle item upd st' i ps
            else goRound (settle item upd st' i ps) i)"
proof -
  let ?ps1 = "ps\<lparr>results := writeBack item upd (results ps),
                  progress_current := progress_current ps + 1, keyState := st'\<rparr>"
  have s: "settle item upd st' i ps = ?ps1\<lparr>workers := (workers ?ps1)[i := Delaying]\<rparr>"
    by (simp add: settle_def)
  have "goRound (settle item upd st' i ps) i = goRound ?ps1 i"
    unfolding s by (rule goRound_overwrite)
  then show ?thesis using assms
    by (simp add: resume_def goRound_def settle_def Let_def)
qed

lemma Awaiting_kept:
  assumes "Awaiting x \<in> set ws" and "\<forall>y. ws ! i \<noteq> Awaiting y \<or> y \<noteq> x"
  shows "Awaiting x \<in> set (ws[i := w])"
proof -
  from assms(1) obtain j where j: "j < length ws" "ws ! j = Awaiting x"
    by (auto simp: in_set_conv_nth)
  with assms(2) have "j \<noteq> i" by auto
  with j have "ws[i := w] ! j = Awaiting x" "j < length (ws[i := w])" by simp_all
  then show ?thesis by (metis nth_mem)
qed

lemma Finished_kept:
  assumes "Finished \<in> set (ws[i := w])" and "w \<noteq> Finished"
  shows "Finished \<in> set ws"
  using assms set_update_subset_insert[of ws i w] by auto

lemma covered_mono:
  assumes "covered ws q rs" and "\<And>x. Awaiting x \<in> set ws \<Longrightarrow> Awaiting x \<in> set ws'"
  shows "covered ws' q rs"
  using assms unfolding covered_def by blast

lemma settle_inv:
  assumes inv: "poolInv tasks ps" and i: "i < length (workers ps)"
    and w: "workers ps ! i = Awaiting item"
    and upd: "terminal upd" "id_str upd = id_str item"
  shows "poolInv tasks (settle item upd st' i ps)"
proof -
  have cov: "covered ((workers ps)[i := Delaying]) (queue ps) (writeBack item upd (results ps))"
  proof (rule covered_writeBack[OF _ upd])
    show "covered (workers ps) (queue ps) (results ps)" using inv by (simp add: poolInv_def)
  next
    fix x assume x: "Awaiting x \<in> set (workers ps)"
    show "Awaiting x \<in> set ((workers ps)[i := Delaying]) \<or> id_str x = id_str item"
    proof (cases "x = item")
      case True then show ?thesis by simp
    next
      case False
      with w have "\<forall>y. workers ps ! i \<noteq> Awaiting y \<or> y \<noteq> x" by auto
      from Awaiting_kept[OF x this] show ?thesis by simp
    qed
  qed
  have fin: "Finished \<in> set ((workers ps)[i := Delaying]) \<longrightarrow> queue ps = []"
    using inv Finished_kept[of "workers ps" i Delaying] by (auto simp: poolInv_def)
  from inv cov fin upd(2) show ?thesis
    by (simp add: poolInv_def settle_def writeBack_ids)
qed

lemma goRound_inv:
  assumes inv: "poolInv tasks ps" and i: "i < length (workers ps)"
    and w: "workers ps ! i = Delaying"
  shows "poolInv tasks (goRound ps i)"
proof (cases "queue ps")
  case Nil
  have keep: "Awaiting x \<in> set (workers ps) \<Longrightarrow> Awaiting x \<in> set ((workers ps)[i := Finished])" for x
    using w by (intro Awaiting_kept) auto
  have "covered ((workers ps)[i := Finished]) (queue ps) (results ps)"
    using inv keep by (auto simp: poolInv_def intro: covered_mono[of "workers ps"])
  with inv Nil show ?thesis by (simp add: goRound_Nil poolInv_def)
next
  case (Cons item rest)
  have keep: "Awaiting x \<in> set (workers ps) \<Longrightarrow> Awaiting x \<in> set ((workers ps)[i := Awaiting item])" for x
    using w by (intro Awaiting_kept) auto
  have here: "Awaiting item \<in> set ((workers ps)[i := Awaiting item])"
    using i by (simp add: set_update_memI)
  have cov: "covered ((workers ps)[i := Awaiting item]) rest (markGenerating item (results ps))"
    using inv Cons keep here by (auto simp: poolInv_def intro: covered_shift[of "workers ps"])
  have fin: "Finished \<in> set ((workers ps)[i := Awaiting item]) \<longrightarrow> rest = []"
    using inv Cons Finished_kept[of "workers ps" i "Awaiting item"] by (auto simp: poolInv_def)
  from inv cov fin Cons show ?thesis
    by (simp add: goRound_Cons poolInv_def markGenerating_ids)
qed

lemma settle_worker:
  "i < length (workers ps) \<Longrightarrow>
     length (workers (settle item upd st' i ps)) = length (workers ps)
     \<and> workers (settle item upd st' i ps) ! i = Delaying"
  by (simp add: settle_def)

lemma resume_inv:
  assumes inv: "poolInv tasks ps"
  shows "poolInv tasks (resume cfg exec anon d ps i)"
proof (cases "i < length (workers ps)")
  case False
  with inv show ?thesis by (simp add: resume_out_of_range)
next
  case i: True
  show ?thesis
  proof (cases "workers ps ! i")
    case Finished
    with i inv show ?thesis by (simp add: resume_Finished)
  next
    case Delaying
    with i inv show ?thesis by (simp add: resume_Delaying goRound_inv)
  next
    case (Awaiting item)
    obtain upd st' where g: "generateSingleImage cfg exec anon (keyState ps) item 0 = (upd, st')"
      by (cases "generateSingleImage cfg exec anon (keyState ps) item 0")
    from gen_shape[OF g] have upd: "terminal upd" "id_str upd = id_str item"
      by (simp_all add: terminal_def)
    note s = settle_inv[OF inv i Awaiting upd, of st']
    from i settle_worker[OF i, of item upd st'] have "i < length (workers (settle item upd st' i ps))"
      "workers (settle item upd st' i ps) ! i = Delaying" by simp_all
    from goRound_inv[OF s this] s show ?thesis
      by (simp add: resume_Awaiting[OF i Awaiting g])
  qed
qed

lemma spawnWorker_inv:
  assumes inv: "poolInv tasks ps"
  shows "poolInv tasks (spawnWorker ps)"
proof (cases "queue ps")
  case Nil
  have "covered (workers ps @ [Finished]) (queue ps) (results ps)"
    using inv by (auto simp: poolInv_def intro: covered_mono[of "workers ps"])
  with inv Nil show ?thesis by (simp add: spawnWorker_def loopHead_def poolInv_def)
next
  case (Cons item rest)
  have cov: "covered (workers ps @ [Awaiting item]) rest (markGenerating item (results ps))"
    using inv Cons by (auto simp: poolInv_def intro: covered_shift[of "workers ps"])
  from inv cov Cons show ?thesis
    by (auto simp: spawnWorker_def loopHead_def poolInv_def markGenerating_ids)
qed

lemma init_inv:
  "poolInv tasks \<lparr>queue = tasks, results = tasks, progress_current = 0, workers = [],
                  keyState = st\<rparr>"
  by (simp add: poolInv_def covered_def)

lemma spawn_pow_inv: "poolInv tasks ps \<Longrightarrow> poolInv tasks ((spawnWorker ^^ n) ps)"
  by (induction n) (simp_all add: spawnWorker_inv)

lemma foldl_resume_inv:
  "poolInv tasks ps \<Longrightarrow> poolInv tasks (foldl (resume cfg exec anon d) ps sched)"
  by (induction sched arbitrary: ps) (simp_all add: resume_inv)

lemma processQueue_inv: "poolInv tasks (processQueue cfg exec anon n d sched st tasks)"
  unfolding processQueue_def by (intro foldl_resume_inv spawn_pow_inv init_inv)

subsection \<open>Every run can be completed\<close>

lemma weight_update:
  "i < length ws \<Longrightarrow>
   sum_list (map weight (ws[i := w])) + weight (ws ! i) = sum_list (map weight ws) + weight w"
proof (induction ws arbitrary: i)
  case Nil
  then show ?case by simp
next
  case (Cons a ws)
  then show ?case by (cases i) auto
qed

lemma goRound_less:
  assumes "i < length (workers ps)" and "workers ps ! i = Delaying"
  shows "remainingWork (goRound ps i) < remainingWork ps"
proof (cases "queue ps")
  case Nil
  with weight_update[OF assms(1), of Finished] assms(2) show ?thesis
    by (simp add: goRound_Nil remainingWork_def)
next
  case (Cons item rest)
  with weight_update[OF assms(1), of "Awaiting item"] assms(2) show ?thesis
    by (simp add: goRound_Cons remainingWork_def)
qed

lemma settle_less:
  assumes "i < length (workers ps)" and "workers ps ! i = Awaiting item"
  shows "remainingWork (settle item upd st' i ps) < remainingWork ps"
  using weight_update[OF assms(1), of Delaying] assms(2)
  by (simp add: settle_def remainingWork_def)

lemma resume_less:
  assumes i: "i < length (workers ps)" and w: "workers ps ! i \<noteq> Finished"
  shows "remainingWork (resume cfg exec anon d ps i) < remainingWork ps"
proof (cases "workers ps ! i")
  case Finished
  with w show ?thesis by simp
next
  case Delaying
  with i show ?thesis by (simp add: resume_Delaying goRound_less)
next
  case (Awaiting item)
  obtain upd st' where g: "generateSingleImage cfg exec anon (keyState ps) item 0 = (upd, st')"
    by (cases "generateSingleImage cfg exec anon (keyState ps) item 0")
  have a: "remainingWork (settle item upd st' i ps) < remainingWork ps"
    by (rule settle_less[OF i Awaiting])
  from i settle_worker[OF i, of item upd st']
  have "remainingWork (goRound (settle item upd st' i ps) i)
          < remainingWork (settle item upd st' i ps)"
    by (intro goRound_less) simp_all
  with a show ?thesis by (simp add: resume_Awaiting[OF i Awaiting g])
qed

lemma resolvable:
  "\<exists>more. resolved (foldl (resume cfg exec anon d) ps more)"
proof (induction "remainingWork ps" arbitrary: ps rule: less_induct)
  case less
  show ?case
  proof (cases "resolved ps")
    case True
    then have "resolved (foldl (resume cfg exec anon d) ps [])" by simp
    then show ?thesis by blast
  next
    case False
    then obtain i where i: "i < length (workers ps)" "workers ps ! i \<noteq> Finished"
      by (auto simp: resolved_def list_all_length)
    from less[OF resume_less[OF i]] obtain more
      where "resolved (foldl (resume cfg exec anon d) (resume cfg exec anon d ps i) more)"
      by blast
    then have "resolved (foldl (resume cfg exec anon d) ps (i # more))" by simp
    then show ?thesis by blast
  qed
qed

subsection \<open>A resolved run\<close>

lemma spawn_pow_workers: "length (workers ((spawnWorker ^^ n) ps)) = length (workers ps) + n"
  by (induction n) (auto simp: spawnWorker_def loopHead_def split: list.splits)

lemma resume_workers: "length (workers (resume cfg exec anon d ps i)) = length (workers ps)"
  by (auto simp: resume_def loopHead_def Let_def split: Worker.splits list.splits prod.splits)

lemma foldl_resume_workers:
  "length (workers (foldl (resume cfg exec anon d) ps sched)) = length (workers ps)"
  by (induction sched arbitrary: ps) (simp_all add: resume_workers)

lemma processQueue_workers:
  "length (workers (processQueue cfg exec anon n d sched st tasks)) = n"
  by (simp add: processQueue_def foldl_resume_workers spawn_pow_workers)

lemma resolved_inv_final:
  assumes "poolInv tasks ps" and "resolved ps" and "workers ps \<noteq> []"
  shows "queue ps = [] \<and> map id_str (results ps) = map id_str tasks
         \<and> (\<forall>r\<in>set (results ps). terminal r)"
proof -
  from assms(2) have all: "\<forall>w\<in>set (workers ps). w = Finished"
    by (simp add: resolved_def list_all_iff)
  with assms(3) have "Finished \<in> set (workers ps)"
    by (cases "workers ps") auto
  with assms(1) have q: "queue ps = []" by (simp add: poolInv_def)
  from all have "\<not> (\<exists>item. Awaiting item \<in> set (workers ps))" by auto
  with assms(1) q have "\<forall>r\<in>set (results ps). terminal r"
    by (auto simp: poolInv_def covered_def)
  with q assms(1) show ?thesis by (simp add: poolInv_def)
qed

section \<open>Properties of the range filter and of anonymisation\<close>

lemma dropLeading_suffix:
  "\<exists>pre. s = pre @ dropLeading codes s \<and> set pre \<subseteq> \<Union> (set ` set codes)"
proof (induction codes s rule: dropLeading.induct)
  case (1 codes s)
  show ?case
  proof (cases "find (startsWith s) codes")
    case None
    then show ?thesis by (subst dropLeading.simps) auto
  next
    case (Some w)
    then have w: "startsWith s w" "w \<in> set codes" by (auto simp: find_Some_iff)
    from "1.IH"[OF Some] obtain pre where pre:
      "drop (length w) s = pre @ dropLeading codes (drop (length w) s)"
      "set pre \<subseteq> \<Union> (set ` set codes)" by blast
    have "s = w @ drop (length w) s" using w(1) by (metis append_take_drop_id startsWith_def)
    with pre(1) have "s = (w @ pre) @ dropLeading codes (drop (length w) s)" by simp
    moreover have "dropLeading codes s = dropLeading codes (drop (length w) s)"
      using Some by (subst dropLeading.simps) simp
    moreover have "set (w @ pre) \<subseteq> \<Union> (set ` set codes)" using w(2) pre(2) by auto
    ultimately show ?thesis by metis
  qed
qed

lemma dropLeading_keeps:
  assumes "x \<in> set s" and "x \<notin> \<Union> (set ` set codes)"
  shows "x \<in> set (dropLeading codes s)"
proof -
  from dropLeading_suffix[of s codes] obtain pre
    where "s = pre @ dropLeading codes s" "set pre \<subseteq> \<Union> (set ` set codes)" by blast
  with assms show ?thesis by (metis Un_iff set_append subsetD)
qed

lemma dropLeading_subset: "set (dropLeading codes s) \<subseteq> set s"
proof -
  from dropLeading_suffix[of s codes] obtain pre where "s = pre @ dropLeading codes s" by blast
  then show ?thesis by (metis Un_upper2 set_append)
qed

lemma trim_keeps:
  assumes "x \<in> set s" and "x \<notin> \<Union> (set ` set whiteSpaceCodes)"
  shows "x \<in> set (trim s)"
proof -
  have a: "x \<in> set (rev (dropLeading whiteSpaceCodes s))"
    using dropLeading_keeps[OF assms] by simp
  have b: "x \<notin> \<Union> (set ` set (map rev whiteSpaceCodes))" using assms(2) by auto
  from dropLeading_keeps[OF a b] show ?thesis by (simp add: trim_def)
qed

lemma digit_not_white:
  assumes "digitVal x \<noteq> None"
  shows "x \<notin> \<Union> (set ` set whiteSpaceCodes)"
proof -
  have "list_all (list_all (\<lambda>b. digitVal b = None)) whiteSpaceCodes" by code_simp
  with assms show ?thesis by (auto simp: list_all_iff)
qed

lemma parseDigits_Some: "parseDigits t = Some m \<Longrightarrow> \<exists>x\<in>set t. digitVal x \<noteq> None"
  by (auto simp: parseDigits_def split: list.splits if_splits)

lemma parseInt_Some_trim:
  assumes "parseInt s = Some n"
  shows "trim s \<noteq> []"
proof -
  from assms have "\<exists>x\<in>set (dropLeading whiteSpaceCodes s). digitVal x \<noteq> None"
    by (auto simp: parseInt_def split: list.splits if_splits dest!: parseDigits_Some)
  then obtain x where "x \<in> set s" "digitVal x \<noteq> None"
    using dropLeading_subset[of whiteSpaceCodes s] by auto
  from trim_keeps[OF this(1) digit_not_white[OF this(2)]] show ?thesis by auto
qed

lemma initialResult_id: "id_str (initialResult p) = id_str p"
  by (simp add: initialResult_def CsvRow.defs ImageResult.defs)










section \<open>The claims\<close>



text \<open>
  Counterexample for C2 as stated: in manual mode, with key 1 selected and the request
  answered by a rate-limit failure, the task's message is the provider's own message,
  not ``The manually selected API key is rate-limited or invalid.''.
\<close>

theorem manual_failure_message_counterexample:
  "isManualKeySelection (cfg_manual openai_dalle3)
   \<and> rateLimited (exec_rate_limited 0 1 ''a cat'')
   \<and> error (fst (generateSingleImage (cfg_manual openai_dalle3) exec_rate_limited anon_throws
               st_initial task_cat 0)) = Some ''OpenAI Error: Rate limit reached''
   \<and> error (fst (generateSingleImage (cfg_manual openai_dalle3) exec_rate_limited anon_throws
               st_initial task_cat 0)) \<noteq> Some manualKeyMessage"
  by code_simp

text \<open>
  \<^bold>\<open>C2\<close> (amended). In manual mode, when the selected index is a position of the key
  list, \<^verbatim>\<open>generateSingleImage\<close> sends exactly one image request, with the selected key
  index; a failure gives the task status \<^verbatim>\<open>error\<close> with the message that
  \<^verbatim>\<open>handleError\<close> extracts from the thrown value (also for a rate-limit failure), and
  no other key is tried.
\<close>

theorem manual_mode_single_attempt:
  assumes "isManualKeySelection cfg"
    and "activeKeyIndices cfg (MODELS_provider (selectedModel cfg))
           < length (apiKeys cfg (MODELS_provider (selectedModel cfg)))"
    and "generateSingleImage cfg exec anon st task 0 = (res, st')"
  shows "requests st' = requests st @
            [(activeKeyIndices cfg (MODELS_provider (selectedModel cfg)),
              fst (promptForApi cfg anon st (prompt task)))]
         \<and> res = (case extractImage cfg
                         (exec (length (requests st))
                            (activeKeyIndices cfg (MODELS_provider (selectedModel cfg)))
                            (fst (promptForApi cfg anon st (prompt task)))) of
                     Inl e \<Rightarrow> task\<lparr>status := Error,
                                 error := Some (handleError e (MODELS_provider (selectedModel cfg)))\<rparr>
                   | Inr url \<Rightarrow> task\<lparr>imageUrl := Some url, status := Success, error := None\<rparr>)"
proof -
  let ?prov = "MODELS_provider (selectedModel cfg)"
  let ?i = "activeKeyIndices cfg ?prov"
  have ck: "chooseKey cfg s 0 = Inr ?i" for s
    using assms(1) by (simp add: chooseKey_def)
  from assms(3) show ?thesis
  proof (cases rule: gen_cases)
    case NoKeys
    with assms(2) show ?thesis by simp
  next
    case (Early p st1 msg)
    with ck show ?thesis by simp
  next
    case (Retry p st1 k e st2)
    with assms(1) show ?thesis by simp
  next
    case (Succeeded p st1 k url st2)
    with ck have k: "k = ?i" by simp
    from Succeeded(4) assms(2) promptForApi_frame(4)[OF Succeeded(2)] k
    have "extractImage cfg (exec (length (requests st)) ?i p) = Inr url"
      "requests st2 = requests st @ [(?i, p)]"
      by (auto simp: tryBlock_sent)
    with Succeeded assms(1) show ?thesis by simp
  next
    case (Failed p st1 k e st2)
    with ck have k: "k = ?i" by simp
    from Failed(4) assms(2) promptForApi_frame(4)[OF Failed(2)] k
    have "extractImage cfg (exec (length (requests st)) ?i p) = Inl e"
      "requests st2 = requests st @ [(?i, p)]"
      by (auto simp: tryBlock_sent)
    with Failed show ?thesis by simp
  qed
qed

text \<open>
  Witness for C2: manual mode, key 1 of two OpenAI keys selected, the request answered
  by a rate-limit failure.
\<close>

theorem manual_mode_single_attempt_witness:
  "isManualKeySelection (cfg_manual openai_dalle3)
   \<and> activeKeyIndices (cfg_manual openai_dalle3)
        (MODELS_provider (selectedModel (cfg_manual openai_dalle3)))
       < length (apiKeys (cfg_manual openai_dalle3)
                   (MODELS_provider (selectedModel (cfg_manual openai_dalle3))))
   \<and> requests (snd (generateSingleImage (cfg_manual openai_dalle3) exec_rate_limited anon_throws
                 st_initial task_cat 0)) = [(1, ''a cat'')]
   \<and> fst (generateSingleImage (cfg_manual openai_dalle3) exec_rate_limited anon_throws
            st_initial task_cat 0)
       = task_cat\<lparr>status := Error, error := Some ''OpenAI Error: Rate limit reached''\<rparr>"
proof -
  let ?cfg = "cfg_manual openai_dalle3"
  let ?run = "generateSingleImage ?cfg exec_rate_limited anon_throws st_initial task_cat 0"
  have h1: "isManualKeySelection ?cfg" by (simp add: cfg_manual_def)
  have h2: "activeKeyIndices ?cfg (MODELS_provider (selectedModel ?cfg))
              < length (apiKeys ?cfg (MODELS_provider (selectedModel ?cfg)))"
    by (simp add: cfg_manual_def keys_ab_def)
  have h3: "?run = (fst ?run, snd ?run)" by simp
  have p: "fst (promptForApi ?cfg anon_throws st_initial (prompt task_cat)) = ''a cat''"
    by code_simp
  have e: "extractImage ?cfg (exec_rate_limited n k q) = Inl rate_limit_error" for n k q
    by (simp add: exec_rate_limited_def extractImage_Threw)
  have m: "handleError rate_limit_error OpenAI = ''OpenAI Error: Rate limit reached''"
    by code_simp
  have c: "activeKeyIndices ?cfg OpenAI = 1"
    "MODELS_provider (selectedModel ?cfg) = OpenAI" "requests st_initial = []"
    by (simp_all add: cfg_manual_def st_initial_def)
  from manual_mode_single_attempt[OF h1 h2 h3] h1 h2 show ?thesis
    by (simp add: p e m c)
qed

text \<open>
  Counterexample for C3 as stated: with two Google keys, a task for which key 0 is rate
  limited and key 1 succeeds leaves the Google cursor at 1; \<^verbatim>\<open>handleRemoveKey\<close> then
  removes \<^verbatim>\<open>key-b\<close>, which changes the key list only, and the cursor 1 is not a
  position of the list that is left.
\<close>

theorem cursor_stale_after_removal_counterexample:
  "googleKeyIndex (snd (generateSingleImage (cfg_auto google_imagen_4) exec_second_key_works
                          anon_throws st_initial task_cat 0)) = 1
   \<and> handleRemoveKey ''key-b'' Google keys_ab Google = [''key-a'']
   \<and> \<not> googleKeyIndex (snd (generateSingleImage (cfg_auto google_imagen_4) exec_second_key_works
                          anon_throws st_initial task_cat 0))
         < length (handleRemoveKey ''key-b'' Google keys_ab Google)"
  by code_simp

text \<open>
  \<^bold>\<open>C3\<close> (amended). The rotation cursor is not reset when the key list changes and
  may point past the end of a list that shrank; automatic mode reads it modulo the size
  of the pool, so for every cursor value and every non-empty pool each key index that
  \<^verbatim>\<open>generateSingleImage\<close> uses for a request is a position of the current key list.
\<close>

theorem rotation_index_valid:
  assumes "\<not> isManualKeySelection cfg"
    and "apiKeys cfg (MODELS_provider (selectedModel cfg)) \<noteq> []"
    and "generateSingleImage cfg exec anon st task 0 = (res, st')"
  shows "\<exists>new. requests st' = requests st @ new
           \<and> (\<forall>x\<in>set new. fst x < length (apiKeys cfg (MODELS_provider (selectedModel cfg))))"
proof -
  let ?n = "length (apiKeys cfg (MODELS_provider (selectedModel cfg)))"
  from rotation_general[OF assms(1) _ assms(2,3)]
  obtain new where new: "requests st' = requests st @ new"
    "\<forall>j<length new. fst (new ! j) =
        (keyIndexRef_current (MODELS_provider (selectedModel cfg)) st + 0 + j) mod ?n"
    by auto
  have "\<forall>x\<in>set new. fst x < ?n"
  proof
    fix x assume "x \<in> set new"
    then obtain j where "j < length new" "new ! j = x" by (auto simp: in_set_conv_nth)
    with new(2) have "fst x = (keyIndexRef_current (MODELS_provider (selectedModel cfg)) st + 0 + j) mod ?n"
      by auto
    with assms(2) show "fst x < ?n" by simp
  qed
  with new(1) show ?thesis by blast
qed

text \<open>
  Witness for C3: after the removal the Google list has one key and the cursor is 1;
  the request of the next task uses index 0.
\<close>

theorem rotation_index_valid_witness:
  "\<not> isManualKeySelection cfg_after_removal
   \<and> apiKeys cfg_after_removal Google = [''key-a'']
   \<and> \<not> googleKeyIndex st_cursor_1 < length (apiKeys cfg_after_removal Google)
   \<and> list_all (\<lambda>x. fst x < 1)
        (requests (snd (generateSingleImage cfg_after_removal exec_no_image anon_throws
                          st_cursor_1 task_cat 0)))
   \<and> requests (snd (generateSingleImage cfg_after_removal exec_no_image anon_throws
                          st_cursor_1 task_cat 0)) \<noteq> []"
proof -
  let ?run = "generateSingleImage cfg_after_removal exec_no_image anon_throws st_cursor_1 task_cat 0"
  have h1: "\<not> isManualKeySelection cfg_after_removal"
    by (simp add: cfg_after_removal_def cfg_auto_def)
  have k: "apiKeys cfg_after_removal Google = [''key-a'']" by code_simp
  have p: "MODELS_provider (selectedModel cfg_after_removal) = Google"
    by (simp add: cfg_after_removal_def cfg_auto_def)
  have h2: "apiKeys cfg_after_removal (MODELS_provider (selectedModel cfg_after_removal)) \<noteq> []"
    by (simp add: p k)
  have h3: "?run = (fst ?run, snd ?run)" by simp
  have c: "\<not> googleKeyIndex st_cursor_1 < length (apiKeys cfg_after_removal Google)"
    by (simp add: k st_cursor_1_def)
  have ne: "requests (snd ?run) \<noteq> []" by code_simp
  have r0: "requests st_cursor_1 = []" by (simp add: st_cursor_1_def st_initial_def)
  from rotation_index_valid[OF h1 h2 h3] have "list_all (\<lambda>x. fst x < 1) (requests (snd ?run))"
    by (auto simp: p k r0 list_all_iff)
  with h1 k c ne show ?thesis by simp
qed

text \<open>
  \<^bold>\<open>C4.\<close> When the key list of the selected model's provider is empty,
  \<^verbatim>\<open>generateSingleImage\<close> returns at once, for every task and attempt, the task with
  status \<^verbatim>\<open>error\<close> and the message ``No API keys provided for <provider>.'', and the
  state (with the log of requests) is unchanged; a pool run sends no request under any
  schedule; and \<^verbatim>\<open>handleStartGeneration\<close> stops with an alert before any run.
\<close>

theorem no_credentials_no_request:
  assumes "apiKeys cfg (MODELS_provider (selectedModel cfg)) = []"
  shows "generateSingleImage cfg exec anon st task attempt =
           (task\<lparr>status := Error,
                  error := Some (noKeysMessage (MODELS_provider (selectedModel cfg)))\<rparr>, st)
         \<and> keyState (processQueue cfg exec anon n d sched st tasks) = st
         \<and> (handleStartGeneration cfg inp exec anon sched st = Alerted NoPromptsAlert
            \<or> handleStartGeneration cfg inp exec anon sched st
                 = Alerted (NoKeysAlert (MODELS_provider (selectedModel cfg))))"
proof -
  have a: "generateSingleImage cfg exec anon st task attempt =
           (task\<lparr>status := Error,
                  error := Some (noKeysMessage (MODELS_provider (selectedModel cfg)))\<rparr>, st)"
    using assms by (simp add: generateSingleImage.simps[of cfg])
  have b: "keyState (processQueue cfg exec anon n d sched st tasks) = st"
    by (simp add: processQueue_def foldl_resume_keyState_nokeys[OF assms] spawn_keyState)
  have c: "handleStartGeneration cfg inp exec anon sched st = Alerted NoPromptsAlert
            \<or> handleStartGeneration cfg inp exec anon sched st
                 = Alerted (NoKeysAlert (MODELS_provider (selectedModel cfg)))"
    using assms by (simp add: handleStartGeneration_def promptsToGenerate_def Let_def)
  from a b c show ?thesis by blast
qed

text \<open>
  Witness for C4: DALL-E 3 selected while only a Google key is stored.
\<close>

theorem no_credentials_no_request_witness:
  "apiKeys cfg_no_openai_key (MODELS_provider (selectedModel cfg_no_openai_key)) = []
   \<and> generateSingleImage cfg_no_openai_key exec_no_image anon_throws st_initial task_cat 0
       = (task_cat\<lparr>status := Error, error := Some ''No API keys provided for openai.''\<rparr>,
          st_initial)
   \<and> keyState (processQueue cfg_no_openai_key exec_no_image anon_throws 2 0 [0, 1, 0, 1]
                  st_initial [task_cat, task_cat]) = st_initial"
proof -
  have h: "apiKeys cfg_no_openai_key (MODELS_provider (selectedModel cfg_no_openai_key)) = []"
    by (simp add: cfg_no_openai_key_def keys_google_only_def)
  have m: "noKeysMessage (MODELS_provider (selectedModel cfg_no_openai_key))
             = ''No API keys provided for openai.''"
    by (simp add: cfg_no_openai_key_def noKeysMessage_def)
  from no_credentials_no_request[OF h, of exec_no_image anon_throws st_initial task_cat 0
         2 0 "[0, 1, 0, 1]" "[task_cat, task_cat]"] h
  show ?thesis by (simp add: m)
qed






text \<open>
  \<^bold>\<open>C7.\<close> For every task list, every number of workers \<open>n \<ge> 1\<close>, every delay and
  every order in which the workers are resumed: the run can always be continued to a
  state where all workers have left their loop; and in every such state the queue is
  empty, there are as many result records as tasks, with the ids of the tasks in order,
  and every record has status \<^verbatim>\<open>success\<close> or \<^verbatim>\<open>error\<close>.
\<close>

theorem processQueue_drains:
  assumes "0 < n"
  shows "(\<forall>sched. \<exists>more. resolved (processQueue cfg exec anon n d (sched @ more) st tasks))
         \<and> (\<forall>sched. resolved (processQueue cfg exec anon n d sched st tasks) \<longrightarrow>
               queue (processQueue cfg exec anon n d sched st tasks) = []
               \<and> length (results (processQueue cfg exec anon n d sched st tasks)) = length tasks
               \<and> map id_str (results (processQueue cfg exec anon n d sched st tasks))
                    = map id_str tasks
               \<and> (\<forall>r\<in>set (results (processQueue cfg exec anon n d sched st tasks)).
                     terminal r))"
proof (intro conjI allI impI)
  fix sched
  show "\<exists>more. resolved (processQueue cfg exec anon n d (sched @ more) st tasks)"
    unfolding processQueue_def foldl_append by (rule resolvable)
next
  fix sched
  let ?ps = "processQueue cfg exec anon n d sched st tasks"
  assume r: "resolved ?ps"
  have w: "workers ?ps \<noteq> []" using processQueue_workers[of cfg exec anon n d sched st tasks] assms
    by auto
  note fin = resolved_inv_final[OF processQueue_inv r w]
  from fin show "queue ?ps = []" by simp
  from fin show "map id_str (results ?ps) = map id_str tasks" by simp
  then show "length (results ?ps) = length tasks" by (metis length_map)
  from fin show "\<forall>r\<in>set (results ?ps). terminal r" by simp
qed

text \<open>
  Witness for C7: two tasks, two workers, no delay; after each worker has been resumed
  once the run has resolved.
\<close>

theorem processQueue_drains_witness:
  "(0::nat) < 2
   \<and> resolved (processQueue (cfg_auto openai_dalle3) exec_second_key_works anon_throws 2 0
                 [0, 1] st_initial [task_cat, task_dog])
   \<and> queue (processQueue (cfg_auto openai_dalle3) exec_second_key_works anon_throws 2 0
                 [0, 1] st_initial [task_cat, task_dog]) = []
   \<and> length (results (processQueue (cfg_auto openai_dalle3) exec_second_key_works anon_throws 2 0
                 [0, 1] st_initial [task_cat, task_dog])) = 2
   \<and> list_all terminal
        (results (processQueue (cfg_auto openai_dalle3) exec_second_key_works anon_throws 2 0
                 [0, 1] st_initial [task_cat, task_dog]))"
proof -
  let ?ps = "processQueue (cfg_auto openai_dalle3) exec_second_key_works anon_throws 2 0
                 [0, 1] st_initial [task_cat, task_dog]"
  have h: "(0::nat) < 2" by simp
  have r: "resolved ?ps" by code_simp
  from processQueue_drains[OF h, of "cfg_auto openai_dalle3" exec_second_key_works anon_throws 0
         st_initial "[task_cat, task_dog]"] r
  have "queue ?ps = []" "length (results ?ps) = length [task_cat, task_dog]"
    "\<forall>x\<in>set (results ?ps). terminal x"
    by blast+
  with h r show ?thesis by (simp add: list_all_iff)
qed

text \<open>
  \<^bold>\<open>C8.\<close> With prompts loaded, a key for the provider, and start and end fields that
  \<^verbatim>\<open>parseInt\<close> reads as numbers, a row is in range iff \<^verbatim>\<open>parseInt\<close> of its id is a
  number between them, inclusive; if no row is in range, \<^verbatim>\<open>handleStartGeneration\<close> stops
  with an alert and nothing is run; otherwise the rows to generate are exactly the rows
  in range, in their original order, and the run's result records carry their ids.
\<close>

theorem range_filter_selects:
  assumes "parseInt (startId inp) = Some startNum" and "parseInt (endId inp) = Some endNum"
    and "prompts inp \<noteq> []" and "apiKeys cfg (MODELS_provider (selectedModel cfg)) \<noteq> []"
  shows "(inRange startNum endNum p \<longleftrightarrow>
            (\<exists>n. parseInt (id_str p) = Some n \<and> startNum \<le> n \<and> n \<le> endNum))
         \<and> (filter (inRange startNum endNum) (prompts inp) = [] \<longrightarrow>
               (\<exists>a. promptsToGenerate cfg inp = Inl a
                    \<and> handleStartGeneration cfg inp exec anon sched st = Alerted a))
         \<and> (filter (inRange startNum endNum) (prompts inp) \<noteq> [] \<longrightarrow>
               promptsToGenerate cfg inp = Inr (filter (inRange startNum endNum) (prompts inp))
               \<and> (\<exists>ps. handleStartGeneration cfg inp exec anon sched st = Ran ps
                     \<and> map id_str (results ps)
                         = map id_str (filter (inRange startNum endNum) (prompts inp))))"
proof -
  let ?sel = "filter (inRange startNum endNum) (prompts inp)"
  have a: "inRange startNum endNum p \<longleftrightarrow>
            (\<exists>n. parseInt (id_str p) = Some n \<and> startNum \<le> n \<and> n \<le> endNum)"
    by (auto simp: inRange_def split: option.splits)
  have t: "trim (startId inp) \<noteq> []" by (rule parseInt_Some_trim[OF assms(1)])
  have empty_if_gt: "endNum < startNum \<Longrightarrow> ?sel = []"
    by (auto simp: filter_empty_conv inRange_def split: option.splits)
  have b: "?sel = [] \<longrightarrow> (\<exists>a. promptsToGenerate cfg inp = Inl a
                    \<and> handleStartGeneration cfg inp exec anon sched st = Alerted a)"
    using assms t by (auto simp: promptsToGenerate_def handleStartGeneration_def Let_def)
  have c1: "?sel \<noteq> [] \<longrightarrow> promptsToGenerate cfg inp = Inr ?sel"
    using assms t empty_if_gt by (auto simp: promptsToGenerate_def Let_def)
  have c2: "?sel \<noteq> [] \<longrightarrow> (\<exists>ps. handleStartGeneration cfg inp exec anon sched st = Ran ps
                     \<and> map id_str (results ps) = map id_str ?sel)"
  proof
    assume "?sel \<noteq> []"
    with c1 have p: "promptsToGenerate cfg inp = Inr ?sel" by simp
    let ?st0 = "if isManualKeySelection cfg
                then keyIndexRef_assign (MODELS_provider (selectedModel cfg))
                       (activeKeyIndices cfg (MODELS_provider (selectedModel cfg))) st
                else st"
    let ?ps = "processQueue cfg exec anon (concurrencyLimit inp) (requestDelay inp) sched ?st0
                 (map initialResult ?sel)"
    have "handleStartGeneration cfg inp exec anon sched st = Ran ?ps"
      by (simp add: handleStartGeneration_def p Let_def)
    moreover have "map id_str (results ?ps) = map id_str (map initialResult ?sel)"
      using processQueue_inv[of "map initialResult ?sel" cfg exec anon "concurrencyLimit inp"
              "requestDelay inp" sched ?st0]
      by (simp add: poolInv_def)
    then have "map id_str (results ?ps) = map id_str ?sel"
      by (simp add: initialResult_id comp_def)
    ultimately show "\<exists>ps. handleStartGeneration cfg inp exec anon sched st = Ran ps
                     \<and> map id_str (results ps) = map id_str ?sel" by blast
  qed
  from a b c1 c2 show ?thesis by blast
qed

text \<open>
  Witness for C8: ids 1, 2, 3, 5, 8. The range 2 to 5 selects the rows 2, 3, 5; the
  range 6 to 7 selects nothing and ends in the alert for an empty range.
\<close>

theorem range_filter_selects_witness:
  "parseInt ''2'' = Some 2 \<and> parseInt ''5'' = Some 5
   \<and> promptsToGenerate (cfg_auto openai_dalle3) (inp_range ''2'' ''5'')
       = Inr [\<lparr> id_str = ''2'', prompt = ''a dog'' \<rparr>, \<lparr> id_str = ''3'', prompt = ''a fox'' \<rparr>,
              \<lparr> id_str = ''5'', prompt = ''an owl'' \<rparr>]
   \<and> handleStartGeneration (cfg_auto openai_dalle3) (inp_range ''6'' ''7'') exec_no_image
         anon_throws [] st_initial = Alerted (EmptyRangeAlert 6 7)"
proof -
  let ?cfg = "cfg_auto openai_dalle3"
  have k: "apiKeys ?cfg (MODELS_provider (selectedModel ?cfg)) \<noteq> []"
    by (simp add: cfg_auto_def keys_ab_def)
  have p2: "parseInt (startId (inp_range ''2'' ''5'')) = Some 2"
    and p5: "parseInt (endId (inp_range ''2'' ''5'')) = Some 5"
    and p6: "parseInt (startId (inp_range ''6'' ''7'')) = Some 6"
    and p7: "parseInt (endId (inp_range ''6'' ''7'')) = Some 7"
    by code_simp+
  have q2: "parseInt ''2'' = Some 2" and q5: "parseInt ''5'' = Some 5" by code_simp+
  have ne: "prompts (inp_range a b) \<noteq> []" for a b
    by (simp add: inp_range_def rows_12358_def)
  have f25: "filter (inRange 2 5) (prompts (inp_range ''2'' ''5''))
       = [\<lparr> id_str = ''2'', prompt = ''a dog'' \<rparr>, \<lparr> id_str = ''3'', prompt = ''a fox'' \<rparr>,
          \<lparr> id_str = ''5'', prompt = ''an owl'' \<rparr>]"
    by code_simp
  have f67: "filter (inRange 6 7) (prompts (inp_range ''6'' ''7'')) = []" by code_simp
  have a67: "promptsToGenerate ?cfg (inp_range ''6'' ''7'') = Inl (EmptyRangeAlert 6 7)"
    by code_simp
  from range_filter_selects[OF p2 p5 ne k, where exec = exec_no_image] f25
  have a: "promptsToGenerate ?cfg (inp_range ''2'' ''5'')
       = Inr [\<lparr> id_str = ''2'', prompt = ''a dog'' \<rparr>, \<lparr> id_str = ''3'', prompt = ''a fox'' \<rparr>,
              \<lparr> id_str = ''5'', prompt = ''an owl'' \<rparr>]"
    by simp
  from range_filter_selects[OF p6 p7 ne k, where exec = exec_no_image and anon = anon_throws
         and sched = "[]" and st = st_initial] f67 a67
  have b: "handleStartGeneration ?cfg (inp_range ''6'' ''7'') exec_no_image anon_throws []
             st_initial = Alerted (EmptyRangeAlert 6 7)"
    by auto
  from q2 q5 a b show ?thesis by simp
qed

text \<open>
  \<^bold>\<open>C9.\<close> In manual mode a call of \<^verbatim>\<open>generateSingleImage\<close>, whatever its outcome,
  leaves both rotation cursors and \<^verbatim>\<open>activeKeyIndices\<close> unchanged.
\<close>

theorem manual_mode_leaves_cursor:
  assumes "isManualKeySelection cfg"
    and "generateSingleImage cfg exec anon st task attempt = (res, st')"
  shows "googleKeyIndex st' = googleKeyIndex st \<and> openaiKeyIndex st' = openaiKeyIndex st
         \<and> nextActiveKeyIndices st' = nextActiveKeyIndices st"
  using assms(2)
proof (cases rule: gen_cases)
  case (Early p st1 msg)
  then show ?thesis using promptForApi_frame[OF Early(2)] by simp
next
  case (Succeeded p st1 k url st2)
  then show ?thesis using promptForApi_frame[OF Succeeded(2)] tryBlock_frame[OF Succeeded(4)] assms(1)
    by simp
next
  case (Failed p st1 k e st2)
  then show ?thesis using promptForApi_frame[OF Failed(2)] tryBlock_frame[OF Failed(4)] by simp
qed (use assms(1) in simp_all)

text \<open>
  Witness for C9: a successful manual-mode generation with key 1; the cursors stay 0.
\<close>

theorem manual_mode_leaves_cursor_witness:
  "isManualKeySelection (cfg_manual openai_dalle3)
   \<and> status (fst (generateSingleImage (cfg_manual openai_dalle3) exec_second_key_works
                anon_throws st_initial task_cat 0)) = Success
   \<and> googleKeyIndex (snd (generateSingleImage (cfg_manual openai_dalle3) exec_second_key_works
                anon_throws st_initial task_cat 0)) = 0
   \<and> openaiKeyIndex (snd (generateSingleImage (cfg_manual openai_dalle3) exec_second_key_works
                anon_throws st_initial task_cat 0)) = 0
   \<and> nextActiveKeyIndices (snd (generateSingleImage (cfg_manual openai_dalle3)
                exec_second_key_works anon_throws st_initial task_cat 0)) OpenAI = 0"
proof -
  let ?run = "generateSingleImage (cfg_manual openai_dalle3) exec_second_key_works
                anon_throws st_initial task_cat 0"
  have h1: "isManualKeySelection (cfg_manual openai_dalle3)" by (simp add: cfg_manual_def)
  have h2: "?run = (fst ?run, snd ?run)" by simp
  have s: "status (fst ?run) = Success" by code_simp
  have i0: "googleKeyIndex st_initial = 0" "openaiKeyIndex st_initial = 0"
    "nextActiveKeyIndices st_initial OpenAI = 0"
    by (simp_all add: st_initial_def)
  from manual_mode_leaves_cursor[OF h1 h2] h1 s i0 show ?thesis
    by simp
qed



end
